theory Spec2Isabelle
  imports Complex_Main "HOL-Library.List_Lexorder"
begin

chapter \<open>TrueTrend: aggregation, scoring, lifecycle and archive statistics\<close>

text \<open>
  A shallow embedding of the core of the TrueTrend backend: keyword normalisation, the
  merge pass and the per-platform cache of \<open>FetcherManager\<close>, the RealScore
  calculator, the lifecycle segmentation of the trends router and the burst score and
  yearly statistics of the archive module. All definitions come first, the properties
  follow in the order of the modules.
\<close>

section \<open>Python values\<close>

text \<open>
  A Python \<open>str\<close> is a sequence of Unicode code points; it is modelled as a list of
  natural numbers, compared lexicographically as Python compares strings. \<open>str\<close>
  writes an ASCII literal as such a list.
\<close>

type_synonym pystr = "nat list"

definition str :: "string \<Rightarrow> pystr" where
  "str s = map of_char s"

text \<open>The exceptions that the modelled code raises or catches.\<close>

datatype py_error =
  ValueError | TypeError | KeyError | IndexError | OverflowError | ZeroDivisionError
  | TimeoutException


section \<open>Double-precision floats\<close>

text \<open>
  A Python \<open>float\<close> is an IEEE 754 binary64 number: a finite double (a real that has a
  53-bit significand and an exponent in range; the two zeros are not told apart), an
  infinity or a NaN. Every arithmetic operation returns the exact result rounded to the
  nearest double, a tie going to the even significand.
\<close>

datatype pyfloat = Fin real | PInf | NInf | NaN

text \<open>Rounding a real to the nearest integer, a tie going to the even one.\<close>

definition rhe :: "real \<Rightarrow> int" where
  "rhe y =
     (let f = \<lfloor>y\<rfloor> in
      if y - of_int f < 1 / 2 then f
      else if 1 / 2 < y - of_int f then f + 1
      else if even f then f else f + 1)"

text \<open>
  The exponent of the last place of the doubles around \<open>x\<close>: 52 below the binary
  exponent of \<open>x\<close>, and \<open>-1074\<close> in the subnormal range.
\<close>

definition ulp_exp :: "real \<Rightarrow> int" where
  "ulp_exp x = max (\<lfloor>log 2 \<bar>x\<bar>\<rfloor> - 52) (- 1074)"

text \<open>The double nearest to a real, before the test for overflow.\<close>

definition fl :: "real \<Rightarrow> real" where
  "fl x =
     (if x = 0 then 0
      else of_int (rhe (x / 2 powr of_int (ulp_exp x))) * 2 powr of_int (ulp_exp x))"

text \<open>Rounding with overflow: a result beyond the largest double is an infinity.\<close>

definition fl_round :: "real \<Rightarrow> pyfloat" where
  "fl_round x =
     (let y = fl x in
      if 2 ^ 1024 \<le> y then PInf else if y \<le> - (2 ^ 1024) then NInf else Fin y)"

text \<open>
  \<open>float(n)\<close> for an \<open>int\<close>, as done implicitly when an \<open>int\<close> meets a float:
  \<open>OverflowError\<close> when the int is too large.
\<close>

definition float_of_int :: "int \<Rightarrow> py_error + pyfloat" where
  "float_of_int n =
     (case fl_round (real_of_int n) of
        Fin y \<Rightarrow> Inr (Fin y)
      | _ \<Rightarrow> Inl OverflowError)"

text \<open>
  The quotient \<open>a / b\<close> of two ints: correctly rounded, \<open>ZeroDivisionError\<close> for a
  zero divisor and \<open>OverflowError\<close> for a quotient out of range.
\<close>

definition int_truediv :: "int \<Rightarrow> int \<Rightarrow> py_error + pyfloat" where
  "int_truediv a b =
     (if b = 0 then Inl ZeroDivisionError
      else
        (case fl_round (real_of_int a / real_of_int b) of
           Fin y \<Rightarrow> Inr (Fin y)
         | _ \<Rightarrow> Inl OverflowError))"

text \<open>The product of two floats.\<close>

fun fmul :: "pyfloat \<Rightarrow> pyfloat \<Rightarrow> pyfloat" where
  "fmul (Fin a) (Fin b) = fl_round (a * b)"
| "fmul NaN y = NaN"
| "fmul x NaN = NaN"
| "fmul (Fin a) PInf = (if a = 0 then NaN else if 0 < a then PInf else NInf)"
| "fmul (Fin a) NInf = (if a = 0 then NaN else if 0 < a then NInf else PInf)"
| "fmul PInf (Fin b) = (if b = 0 then NaN else if 0 < b then PInf else NInf)"
| "fmul NInf (Fin b) = (if b = 0 then NaN else if 0 < b then NInf else PInf)"
| "fmul PInf PInf = PInf"
| "fmul PInf NInf = NInf"
| "fmul NInf PInf = NInf"
| "fmul NInf NInf = PInf"

text \<open>The difference of two floats.\<close>

fun fsub :: "pyfloat \<Rightarrow> pyfloat \<Rightarrow> pyfloat" where
  "fsub (Fin a) (Fin b) = fl_round (a - b)"
| "fsub NaN y = NaN"
| "fsub x NaN = NaN"
| "fsub (Fin a) PInf = NInf"
| "fsub (Fin a) NInf = PInf"
| "fsub PInf (Fin b) = PInf"
| "fsub NInf (Fin b) = NInf"
| "fsub PInf PInf = NaN"
| "fsub PInf NInf = PInf"
| "fsub NInf PInf = NInf"
| "fsub NInf NInf = NaN"

text \<open>The quotient \<open>x / y\<close> of two floats; Python raises on a zero divisor.\<close>

fun fdiv :: "pyfloat \<Rightarrow> pyfloat \<Rightarrow> py_error + pyfloat" where
  "fdiv (Fin a) (Fin b) = (if b = 0 then Inl ZeroDivisionError else Inr (fl_round (a / b)))"
| "fdiv NaN (Fin b) = (if b = 0 then Inl ZeroDivisionError else Inr NaN)"
| "fdiv PInf (Fin b) =
     (if b = 0 then Inl ZeroDivisionError else Inr (if 0 < b then PInf else NInf))"
| "fdiv NInf (Fin b) =
     (if b = 0 then Inl ZeroDivisionError else Inr (if 0 < b then NInf else PInf))"
| "fdiv x NaN = Inr NaN"
| "fdiv (Fin a) PInf = Inr (Fin 0)"
| "fdiv (Fin a) NInf = Inr (Fin 0)"
| "fdiv NaN PInf = Inr NaN"
| "fdiv NaN NInf = Inr NaN"
| "fdiv PInf PInf = Inr NaN"
| "fdiv PInf NInf = Inr NaN"
| "fdiv NInf PInf = Inr NaN"
| "fdiv NInf NInf = Inr NaN"

text \<open>
  \<open>round(x, 2)\<close> on a float: the exact value of \<open>x\<close> is rounded to two decimals, a tie
  going to the even digit, and the nearest double to that decimal is returned; an
  infinity or a NaN is returned as it is.
\<close>

fun fround2 :: "pyfloat \<Rightarrow> pyfloat" where
  "fround2 (Fin x) = fl_round (of_int (rhe (x * 100)) / 100)"
| "fround2 PInf = PInf"
| "fround2 NInf = NInf"
| "fround2 NaN = NaN"

text \<open>
  The order of floats as sort keys: an order embedding of the floats without NaN into
  the reals.
\<close>

fun fkey :: "pyfloat \<Rightarrow> real" where
  "fkey (Fin x) = x"
| "fkey PInf = 2 ^ 1024"
| "fkey NInf = - (2 ^ 1024)"
| "fkey NaN = 0"

text \<open>
  A real \<open>a\<close> that results from \<open>k\<close> roundings of a positive real \<open>b\<close>: each rounding
  changes a value by a factor between \<open>1 - 2^-53\<close> and its inverse.
\<close>

definition approx :: "nat \<Rightarrow> real \<Rightarrow> real \<Rightarrow> bool" where
  "approx k a b \<longleftrightarrow> b * (1 - 1 / 2 ^ 53) ^ k \<le> a \<and> a * (1 - 1 / 2 ^ 53) ^ k \<le> b"

text \<open>A positive real between \<open>2^-n\<close> and \<open>2^n\<close>.\<close>

definition in_range :: "nat \<Rightarrow> real \<Rightarrow> bool" where
  "in_range n x \<longleftrightarrow> 1 / 2 ^ n \<le> x \<and> x \<le> 2 ^ n"


section \<open>Archive burst score (services/github_archive.py)\<close>

text \<open>
  \<open>calculate_burst_score(total_appearances, days_on_list, peak_intensity, lifespan_days)\<close>
  in double precision. The decimal literals \<open>0.3\<close>, \<open>0.6\<close>, \<open>0.8\<close> and \<open>0.5\<close> are
  the doubles nearest to them. \<open>math.log(days_on_list, 5)\<close> is computed by the C library
  and is the parameter \<open>math_log5\<close>; it is only asked for \<open>days_on_list > 10\<close>. The
  product is evaluated from left to right, the \<open>int\<close> base score being converted to a
  float when it meets the weight.
\<close>

definition calculate_burst_score ::
  "(int \<Rightarrow> pyfloat) \<Rightarrow> int \<Rightarrow> int \<Rightarrow> int \<Rightarrow> int \<Rightarrow> py_error + pyfloat" where
  "calculate_burst_score math_log5 total_appearances days_on_list peak_intensity lifespan_days =
     (if days_on_list = 0 then Inr (Fin 0)
      else
        (case (if days_on_list = 1 then Inr (fl_round (3 / 10))
               else if days_on_list = 2 then Inr (fl_round (6 / 10))
               else if days_on_list \<le> 10 then Inr (Fin 1)
               else fdiv (Fin 1) (math_log5 days_on_list)) of
           Inl e \<Rightarrow> Inl e
         | Inr days_weight \<Rightarrow>
             (case int_truediv total_appearances days_on_list of
                Inl e \<Rightarrow> Inl e
              | Inr concentration \<Rightarrow>
                  (let lifespan_penalty =
                         (if lifespan_days \<le> 14 then Fin 1
                          else if lifespan_days \<le> 30 then fl_round (8 / 10)
                          else if lifespan_days \<le> 60 then fl_round (5 / 10)
                          else fl_round (3 / 10))
                   in case float_of_int total_appearances of
                        Inl e \<Rightarrow> Inl e
                      | Inr base_score \<Rightarrow>
                          Inr (fround2
                                 (fmul (fmul (fmul base_score days_weight) concentration)
                                    lifespan_penalty))))))"



definition lifespan_penalty_spec :: "int \<Rightarrow> real" where
  "lifespan_penalty_spec l =
     (if l \<le> 14 then 1 else if l \<le> 30 then 8 / 10 else if l \<le> 60 then 5 / 10 else 3 / 10)"




section \<open>Lifecycle segmentation (routers/trends.py, get_keyword_lifecycle)\<close>

text \<open>
  The endpoint is modelled from the point where \<open>daily_heat\<close>, the dict from each
  date to the heat of that day, has been built: an association list in insertion
  order. \<open>LifecyclePoint\<close> and \<open>LifecycleData\<close> (models/schemas.py) are records.
  The daily heats are finite floats; from here on they are only compared and copied,
  never computed with, so each is given by the real number it denotes.
  \<open>datetime.fromisoformat\<close> is library code: it is a parameter that maps a date
  string to a datetime or raises \<open>ValueError\<close> (the value \<open>None\<close>).
\<close>

datatype phase = birth | rise | peak | decline | death

record 't lifecycle_point =
  lp_timestamp :: 't
  lp_heat_score :: real
  lp_phase :: phase

record 't lifecycle_data =
  ld_keyword :: pystr
  ld_data_points :: "'t lifecycle_point list"
  ld_birth_date :: 't
  ld_peak_date :: 't
  ld_death_date :: "'t option"
  ld_total_days :: nat

text \<open>\<open>max(daily_heat.values())\<close>; \<open>max\<close> of an empty sequence raises.\<close>

fun py_max :: "real list \<Rightarrow> py_error + real" where
  "py_max [] = Inl ValueError"
| "py_max (x # xs) = Inr (fold max xs x)"

text \<open>
  The branch chain of the loop body, in the order of the source. The two float
  comparisons \<open>i < len(sorted_dates) * 0.2\<close> and \<open>i > len(sorted_dates) * 0.8\<close> are
  read over the reals: the product is an integer only when the length is a multiple of
  five, where the float product is exact as well.
\<close>

definition phase_of :: "nat \<Rightarrow> nat \<Rightarrow> 'd::linorder \<Rightarrow> 'd \<Rightarrow> phase" where
  "phase_of n i date max_date =
     (if real i < real n * (2 / 10) then birth
      else if date < max_date then rise
      else if date = max_date then peak
      else if real n * (8 / 10) < real i then death
      else decline)"

text \<open>The loop \<open>for i, date in enumerate(sorted_dates)\<close>.\<close>

fun build_points ::
  "('d::linorder \<Rightarrow> 't option) \<Rightarrow> ('d \<times> real) list \<Rightarrow> nat \<Rightarrow> 'd \<Rightarrow> (nat \<times> 'd) list
     \<Rightarrow> py_error + 't lifecycle_point list" where
  "build_points fromisoformat daily_heat n max_date [] = Inr []"
| "build_points fromisoformat daily_heat n max_date ((i, date) # rest) =
     (case map_of daily_heat date of
        None \<Rightarrow> Inl KeyError
      | Some heat \<Rightarrow>
          (case fromisoformat date of
             None \<Rightarrow> Inl ValueError
           | Some ts \<Rightarrow>
               (case build_points fromisoformat daily_heat n max_date rest of
                  Inl e \<Rightarrow> Inl e
                | Inr pts \<Rightarrow>
                    Inr (\<lparr>lp_timestamp = ts, lp_heat_score = heat,
                          lp_phase = phase_of n i date max_date\<rparr> # pts))))"

text \<open>
  Everything after the daily roll-up: \<open>sorted_dates\<close>, \<open>max_heat\<close>, \<open>max_date\<close>
  (the first key, in insertion order, whose heat is the maximum), the points and the
  \<open>LifecycleData\<close> record.
\<close>

definition segment ::
  "('d::linorder \<Rightarrow> 't option) \<Rightarrow> pystr \<Rightarrow> ('d \<times> real) list \<Rightarrow> py_error + 't lifecycle_data" where
  "segment fromisoformat keyword daily_heat =
     (let sorted_dates = sort (map fst daily_heat) in
      case py_max (map snd daily_heat) of
        Inl e \<Rightarrow> Inl e
      | Inr max_heat \<Rightarrow>
          (case filter (\<lambda>(d, h). h = max_heat) daily_heat of
             [] \<Rightarrow> Inl IndexError
           | (max_date, _) # _ \<Rightarrow>
               (case build_points fromisoformat daily_heat (length sorted_dates) max_date
                       (enumerate 0 sorted_dates) of
                  Inl e \<Rightarrow> Inl e
                | Inr data_points \<Rightarrow>
                    (case (fromisoformat (hd sorted_dates), fromisoformat max_date,
                           fromisoformat (last sorted_dates)) of
                       (Some b, Some p, Some l) \<Rightarrow>
                         Inr \<lparr>ld_keyword = keyword, ld_data_points = data_points,
                              ld_birth_date = b, ld_peak_date = p,
                              ld_death_date = (if 1 < length sorted_dates then Some l else None),
                              ld_total_days = length sorted_dates\<rparr>
                     | _ \<Rightarrow> Inl ValueError))))"

text \<open>The phase rule as the specification words it (section 4.5), with \<open>floor\<close>.\<close>

definition phase_spec :: "nat \<Rightarrow> nat \<Rightarrow> 'd::linorder \<Rightarrow> 'd \<Rightarrow> phase" where
  "phase_spec n i d peak_date =
     (if int i < \<lfloor>real n * (2 / 10)\<rfloor> then birth
      else if d < peak_date then rise
      else if d = peak_date then peak
      else if \<lfloor>real n * (8 / 10)\<rfloor> < int i then death
      else decline)"


text \<open>The branch chain of \<open>phase_of\<close> with the comparisons written over the naturals.\<close>

definition phase_rule :: "nat \<Rightarrow> nat \<Rightarrow> 'd::linorder \<Rightarrow> 'd \<Rightarrow> phase" where
  "phase_rule n i d pk =
     (if 5 * i < n then birth
      else if d < pk then rise
      else if d = pk then peak
      else if 4 * n < 5 * i then death
      else decline)"

text \<open>The labels of the ten-day example of the specification, by index.\<close>

definition ten_expected :: "nat \<Rightarrow> phase" where
  "ten_expected i =
     (if i < 2 then birth else if i = 2 then rise else if i = 3 then peak
      else if i < 9 then decline else death)"

text \<open>The phase labels of a result, and two sample series.\<close>

definition phases :: "py_error + 't lifecycle_data \<Rightarrow> py_error + phase list" where
  "phases res = (case res of Inl e \<Rightarrow> Inl e | Inr r \<Rightarrow> Inr (map lp_phase (ld_data_points r)))"

definition ten_days :: "(pystr \<times> real) list" where
  "ten_days =
     [(str ''2024-03-01'', 10), (str ''2024-03-02'', 40), (str ''2024-03-03'', 70),
      (str ''2024-03-04'', 90), (str ''2024-03-05'', 80), (str ''2024-03-06'', 60),
      (str ''2024-03-07'', 50), (str ''2024-03-08'', 30), (str ''2024-03-09'', 20),
      (str ''2024-03-10'', 5)]"

definition five_days :: "(pystr \<times> real) list" where
  "five_days =
     [(str ''2024-03-01'', 90), (str ''2024-03-02'', 40), (str ''2024-03-03'', 30),
      (str ''2024-03-04'', 20), (str ''2024-03-05'', 10)]"


section \<open>Keyword normalisation and merging (services/fetchers/fetcher_manager.py)\<close>

subsection \<open>\<open>_normalize_keyword\<close>\<close>

text \<open>
  \<open>str.strip()\<close> removes the code points for which \<open>str.isspace\<close> holds from both
  ends.
\<close>

definition is_space :: "nat \<Rightarrow> bool" where
  "is_space c \<longleftrightarrow>
     (9 \<le> c \<and> c \<le> 13) \<or> (28 \<le> c \<and> c \<le> 32) \<or> c = 133 \<or> c = 160 \<or> c = 5760
     \<or> (8192 \<le> c \<and> c \<le> 8202) \<or> c = 8232 \<or> c = 8233 \<or> c = 8239 \<or> c = 8287
     \<or> c = 12288"

definition strip :: "pystr \<Rightarrow> pystr" where
  "strip s = rev (dropWhile is_space (rev (dropWhile is_space s)))"

text \<open>
  The substitution \<open>re.sub(pattern, '', s)\<close>, whose pattern is the negated character
  class of \<open>\w\<close> and the range U+4E00..U+9FFF, deletes every code point that is neither a
  word character nor in the range U+4E00..U+9FFF. For a \<open>str\<close> pattern \<open>\w\<close> matches
  the underscore and every alphanumeric code point. Below 128 these are the ASCII letters
  and digits; from 128 on they are given by the Unicode database, a parameter
  \<open>uni_alnum\<close>.
\<close>

definition ascii_alnum :: "nat \<Rightarrow> bool" where
  "ascii_alnum c \<longleftrightarrow> (48 \<le> c \<and> c \<le> 57) \<or> (65 \<le> c \<and> c \<le> 90) \<or> (97 \<le> c \<and> c \<le> 122)"

definition word_char :: "(nat \<Rightarrow> bool) \<Rightarrow> nat \<Rightarrow> bool" where
  "word_char uni_alnum c \<longleftrightarrow> (if c < 128 then ascii_alnum c \<or> c = 95 else uni_alnum c)"

definition kept_char :: "(nat \<Rightarrow> bool) \<Rightarrow> nat \<Rightarrow> bool" where
  "kept_char uni_alnum c \<longleftrightarrow> word_char uni_alnum c \<or> (19968 \<le> c \<and> c \<le> 40959)"

text \<open>
  \<open>str.lower()\<close>: an ASCII capital is mapped to its small letter; what a code point
  from 128 on becomes depends on the Unicode database and on its context (final sigma),
  so the parameter \<open>uni_lower\<close> receives the whole string and the position.
\<close>

fun lower_from :: "(pystr \<Rightarrow> nat \<Rightarrow> pystr) \<Rightarrow> pystr \<Rightarrow> nat \<Rightarrow> pystr \<Rightarrow> pystr" where
  "lower_from uni_lower s i [] = []"
| "lower_from uni_lower s i (c # cs) =
     (if c < 128 then [if 65 \<le> c \<and> c \<le> 90 then c + 32 else c] else uni_lower s i)
     @ lower_from uni_lower s (Suc i) cs"

definition py_lower :: "(pystr \<Rightarrow> nat \<Rightarrow> pystr) \<Rightarrow> pystr \<Rightarrow> pystr" where
  "py_lower uni_lower s = lower_from uni_lower s 0 s"

definition normalize_keyword ::
  "(nat \<Rightarrow> bool) \<Rightarrow> (pystr \<Rightarrow> nat \<Rightarrow> pystr) \<Rightarrow> pystr \<Rightarrow> pystr" where
  "normalize_keyword uni_alnum uni_lower keyword =
     py_lower uni_lower (filter (kept_char uni_alnum) (strip keyword))"

text \<open>Normalisation as the specification words it (section 4.1).\<close>

definition normalize_spec :: "pystr \<Rightarrow> pystr" where
  "normalize_spec raw =
     map (\<lambda>c. if 65 \<le> c \<and> c \<le> 90 then c + 32 else c)
       (filter (\<lambda>c. (19968 \<le> c \<and> c \<le> 40959) \<or> ascii_alnum c) (strip raw))"

subsection \<open>The merge pass of \<open>fetch_and_merge\<close>\<close>

text \<open>
  An adapter item is a dict with the keys \<open>keyword\<close>, \<open>raw_heat_score\<close>,
  \<open>timestamp\<close> and \<open>metadata\<close>; the entries of \<open>keyword_map\<close> and the merged
  records are dicts with fixed keys as well. They are records here; every dict whose keys
  vary (\<open>all_data\<close>, \<open>keyword_map\<close>, \<open>raw_heat_scores\<close>, \<open>metadata_by_platform\<close>) is an
  association list in insertion order.
\<close>

record 'm raw_item =
  ri_keyword :: pystr
  ri_raw_heat_score :: real
  ri_timestamp :: pystr
  ri_metadata :: 'm

record 'm entry =
  en_keyword :: pystr
  en_platforms :: "pystr list"
  en_raw_heat_scores :: "(pystr \<times> real) list"
  en_total_raw_heat :: real
  en_first_seen :: pystr
  en_metadata_by_platform :: "(pystr \<times> 'm) list"

record 'm merged_trend =
  mt_keyword :: pystr
  mt_platforms :: "pystr list"
  mt_platform_count :: nat
  mt_raw_heat_score :: real
  mt_heat_by_platform :: "(pystr \<times> real) list"
  mt_first_seen :: pystr
  mt_last_seen :: pystr
  mt_metadata :: "(pystr \<times> 'm) list"

text \<open>\<open>d[k] = v\<close> on a dict in insertion order.\<close>

fun dict_set :: "('k \<times> 'v) list \<Rightarrow> 'k \<Rightarrow> 'v \<Rightarrow> ('k \<times> 'v) list" where
  "dict_set [] k v = [(k, v)]"
| "dict_set ((k', w) # kvs) k v =
     (if k' = k then (k', v) # kvs else (k', w) # dict_set kvs k v)"

text \<open>The entry created for a normalised keyword that is not yet in \<open>keyword_map\<close>.\<close>

definition new_entry :: "'m raw_item \<Rightarrow> 'm entry" where
  "new_entry item =
     \<lparr>en_keyword = ri_keyword item, en_platforms = [], en_raw_heat_scores = [],
      en_total_raw_heat = 0, en_first_seen = ri_timestamp item,
      en_metadata_by_platform = []\<rparr>"

text \<open>The three updates of the loop body on \<open>entry\<close>.\<close>

definition record_item :: "pystr \<Rightarrow> 'm raw_item \<Rightarrow> 'm entry \<Rightarrow> 'm entry" where
  "record_item platform item entry =
     entry\<lparr>en_platforms :=
              (if platform \<in> set (en_platforms entry) then en_platforms entry
               else en_platforms entry @ [platform]),
            en_raw_heat_scores :=
              dict_set (en_raw_heat_scores entry) platform (ri_raw_heat_score item),
            en_total_raw_heat := en_total_raw_heat entry + ri_raw_heat_score item,
            en_metadata_by_platform :=
              dict_set (en_metadata_by_platform entry) platform (ri_metadata item)\<rparr>"

text \<open>
  \<open>if k not in keyword_map: keyword_map[k] = fresh\<close>, then \<open>f\<close> applied to
  \<open>keyword_map[k]\<close>.
\<close>

fun km_update ::
  "'k \<Rightarrow> 'e \<Rightarrow> ('e \<Rightarrow> 'e) \<Rightarrow> ('k \<times> 'e) list \<Rightarrow> ('k \<times> 'e) list" where
  "km_update k fresh f [] = [(k, f fresh)]"
| "km_update k fresh f ((k', e) # kvs) =
     (if k' = k then (k', f e) # kvs else (k', e) # km_update k fresh f kvs)"

definition merge_item ::
  "(pystr \<Rightarrow> pystr) \<Rightarrow> pystr \<Rightarrow> (pystr \<times> 'm entry) list \<Rightarrow> 'm raw_item
     \<Rightarrow> (pystr \<times> 'm entry) list" where
  "merge_item normalise platform keyword_map item =
     km_update (normalise (ri_keyword item)) (new_entry item) (record_item platform item)
       keyword_map"

definition merge_platform ::
  "(pystr \<Rightarrow> pystr) \<Rightarrow> (pystr \<times> 'm entry) list \<Rightarrow> pystr \<times> 'm raw_item list
     \<Rightarrow> (pystr \<times> 'm entry) list" where
  "merge_platform normalise keyword_map pl =
     foldl (merge_item normalise (fst pl)) keyword_map (snd pl)"

definition build_keyword_map ::
  "(pystr \<Rightarrow> pystr) \<Rightarrow> (pystr \<times> 'm raw_item list) list \<Rightarrow> (pystr \<times> 'm entry) list" where
  "build_keyword_map normalise all_data = foldl (merge_platform normalise) [] all_data"

definition to_merged :: "pystr \<Rightarrow> 'm entry \<Rightarrow> 'm merged_trend" where
  "to_merged now data =
     \<lparr>mt_keyword = en_keyword data, mt_platforms = en_platforms data,
      mt_platform_count = length (en_platforms data),
      mt_raw_heat_score = en_total_raw_heat data,
      mt_heat_by_platform = en_raw_heat_scores data,
      mt_first_seen = en_first_seen data, mt_last_seen = now,
      mt_metadata = en_metadata_by_platform data\<rparr>"

text \<open>
  \<open>list.sort(key=..., reverse=True)\<close> is a stable sort: the result is descending in the
  key and elements with equal keys keep their order. Sorting by the negated key with the
  stable insertion sort gives that list.
\<close>

definition sort_desc :: "('a \<Rightarrow> real) \<Rightarrow> 'a list \<Rightarrow> 'a list" where
  "sort_desc key xs = sort_key (\<lambda>x. - key x) xs"

text \<open>
  \<open>fetch_and_merge\<close> on the adapter outputs \<open>all_data\<close> that \<open>fetch_all_platforms\<close>
  returned; \<open>now\<close> is the clock reading written to \<open>last_seen\<close>.
\<close>

definition merge_sorted ::
  "(pystr \<Rightarrow> pystr) \<Rightarrow> pystr \<Rightarrow> (pystr \<times> 'm raw_item list) list \<Rightarrow> 'm merged_trend list" where
  "merge_sorted normalise now all_data =
     sort_desc mt_raw_heat_score (map (\<lambda>(norm_keyword, data). to_merged now data)
       (build_keyword_map normalise all_data))"

text \<open>Keys in the order of their first occurrence.\<close>

definition first_occurrences :: "'k list \<Rightarrow> 'k list" where
  "first_occurrences ks = foldl (\<lambda>acc k. if k \<in> set acc then acc else acc @ [k]) [] ks"

text \<open>The normalised keywords in the order in which the merge pass meets them.\<close>

definition normalized_keys :: "(pystr \<Rightarrow> pystr) \<Rightarrow> (pystr \<times> 'm raw_item list) list \<Rightarrow> pystr list" where
  "normalized_keys normalise all_data =
     concat (map (\<lambda>pl. map (\<lambda>item. normalise (ri_keyword item)) (snd pl)) all_data)"

text \<open>Sample adapter items.\<close>

definition item :: "string \<Rightarrow> real \<Rightarrow> unit raw_item" where
  "item kw heat =
     \<lparr>ri_keyword = str kw, ri_raw_heat_score = heat,
      ri_timestamp = str ''2024-03-01T08:00:00'', ri_metadata = ()\<rparr>"

subsection \<open>Invariants of the merge pass\<close>

text \<open>
  An entry is consistent when its total is the sum over its per-platform heats and these
  come from platforms in \<open>seen\<close>. While the items of platform \<open>p\<close> are folded in,
  \<open>p\<close> has a heat only in entries whose key is among the keys \<open>handled\<close> so far.
\<close>

definition heat_consistent :: "pystr set \<Rightarrow> pystr \<times> 'm entry \<Rightarrow> bool" where
  "heat_consistent seen ke \<longleftrightarrow>
     en_total_raw_heat (snd ke) = sum_list (map snd (en_raw_heat_scores (snd ke)))
     \<and> fst ` set (en_raw_heat_scores (snd ke)) \<subseteq> seen"

definition heat_consistent_in ::
  "pystr \<Rightarrow> pystr set \<Rightarrow> pystr set \<Rightarrow> pystr \<times> 'm entry \<Rightarrow> bool" where
  "heat_consistent_in p handled seen ke \<longleftrightarrow>
     heat_consistent (insert p seen) ke
     \<and> (fst ke \<in> handled \<or> p \<notin> fst ` set (en_raw_heat_scores (snd ke)))"

text \<open>No platform reports two items with the same normalised keyword.\<close>

definition keys_unique :: "(pystr \<Rightarrow> pystr) \<Rightarrow> (pystr \<times> 'm raw_item list) list \<Rightarrow> bool" where
  "keys_unique normalise all_data \<longleftrightarrow>
     distinct (map fst all_data)
     \<and> list_all (\<lambda>pl. distinct (map (\<lambda>item. normalise (ri_keyword item)) (snd pl))) all_data"


section \<open>The per-platform cache (services/fetchers/fetcher_manager.py)\<close>

text \<open>
  The state of a \<open>FetcherManager\<close>: the registered fetchers (a dict in registration
  order), \<open>_cache\<close> and \<open>_cache_time\<close>. A fetcher's \<open>fetch_trending(limit)\<close> either
  returns a list of items or raises; a timeout of the HTTP client is one of the
  exceptions it can raise. A clock reading is a number of seconds.

  The tasks that \<open>asyncio.gather\<close> runs are interleaved on one thread and each of
  them reads and writes the cache entries of its own platform only, so the cycle is
  modelled as the tasks run one after the other in registration order, with one clock
  reading \<open>now\<close>.
\<close>

record 'm manager =
  fetchers :: "(pystr \<times> (int \<Rightarrow> py_error + 'm raw_item list)) list"
  cache :: "pystr \<rightharpoonup> 'm raw_item list"
  cache_time :: "pystr \<rightharpoonup> real"

definition CACHE_TTL :: real where
  "CACHE_TTL = 60 * 5"

definition is_cache_valid :: "'m manager \<Rightarrow> real \<Rightarrow> pystr \<Rightarrow> bool" where
  "is_cache_valid m now platform =
     (case cache_time m platform of
        None \<Rightarrow> False
      | Some t \<Rightarrow> now - t < CACHE_TTL)"

text \<open>The slice \<open>xs[:limit]\<close>; a negative limit counts from the end.\<close>

definition slice_to :: "'a list \<Rightarrow> int \<Rightarrow> 'a list" where
  "slice_to xs limit =
     (if 0 \<le> limit then take (nat limit) xs else take (nat (int (length xs) + limit)) xs)"

definition fetch_single_platform ::
  "'m manager \<Rightarrow> real \<Rightarrow> pystr \<Rightarrow> int \<Rightarrow> bool \<Rightarrow> py_error + ('m manager \<times> 'm raw_item list)" where
  "fetch_single_platform m now platform limit use_cache =
     (case map_of (fetchers m) platform of
        None \<Rightarrow> Inl ValueError
      | Some fetcher \<Rightarrow>
          if use_cache \<and> is_cache_valid m now platform
          then Inr (m, slice_to (case cache m platform of None \<Rightarrow> [] | Some d \<Rightarrow> d) limit)
          else
            (case fetcher limit of
               Inl e \<Rightarrow> Inl e
             | Inr data \<Rightarrow>
                 Inr (m\<lparr>cache := (cache m)(platform \<mapsto> data),
                        cache_time := (cache_time m)(platform \<mapsto> now)\<rparr>, data)))"

text \<open>
  \<open>asyncio.gather(*tasks, return_exceptions=True)\<close> followed by the loop that turns an
  exception into an empty list.
\<close>

fun gather ::
  "'m manager \<Rightarrow> real \<Rightarrow> int \<Rightarrow> bool \<Rightarrow> pystr list
     \<Rightarrow> 'm manager \<times> (pystr \<times> 'm raw_item list) list" where
  "gather m now limit use_cache [] = (m, [])"
| "gather m now limit use_cache (platform # rest) =
     (case fetch_single_platform m now platform limit use_cache of
        Inl e \<Rightarrow>
          (case gather m now limit use_cache rest of
             (m', data) \<Rightarrow> (m', (platform, []) # data))
      | Inr (m1, result) \<Rightarrow>
          (case gather m1 now limit use_cache rest of
             (m', data) \<Rightarrow> (m', (platform, result) # data)))"

definition fetch_all_platforms ::
  "'m manager \<Rightarrow> real \<Rightarrow> int \<Rightarrow> bool \<Rightarrow> 'm manager \<times> (pystr \<times> 'm raw_item list) list" where
  "fetch_all_platforms m now limit_per_platform use_cache =
     gather m now limit_per_platform use_cache (map fst (fetchers m))"

text \<open>
  \<open>fetch_and_merge\<close>: the fetch cycle followed by the merge pass; \<open>stamp\<close> is the ISO
  string of the clock written to \<open>last_seen\<close>.
\<close>

definition fetch_and_merge ::
  "(pystr \<Rightarrow> pystr) \<Rightarrow> pystr \<Rightarrow> 'm manager \<Rightarrow> real \<Rightarrow> int \<Rightarrow> bool
     \<Rightarrow> 'm manager \<times> 'm merged_trend list" where
  "fetch_and_merge normalise stamp m now limit_per_platform use_cache =
     (case fetch_all_platforms m now limit_per_platform use_cache of
        (m', all_data) \<Rightarrow> (m', merge_sorted normalise stamp all_data))"

section \<open>The bundled adapters (services/fetchers/weibo_fetcher.py, zhihu_fetcher.py, bilibili_fetcher.py)\<close>


text \<open>
  The loop that converts the items to the standard format; \<open>convert\<close> builds one dict
  and raises when \<open>float(item.hot_value)\<close> does.
\<close>

fun convert_items :: "('i \<Rightarrow> py_error + 'r) \<Rightarrow> 'i list \<Rightarrow> py_error + 'r list" where
  "convert_items convert [] = Inr []"
| "convert_items convert (x # xs) =
     (case convert x of
        Inl e \<Rightarrow> Inl e
      | Inr r \<Rightarrow>
          (case convert_items convert xs of
             Inl e \<Rightarrow> Inl e
           | Inr results \<Rightarrow> Inr (r # results)))"

text \<open>
  \<open>WeiboFetcher.fetch_trending\<close>: the HTML page, the mobile API when the page gave no
  items, the conversion of \<open>items[:limit]\<close>; all of it inside
  \<open>try ... except Exception: return []\<close>. The two arguments are the outcomes of the
  two source functions.
\<close>

definition weibo_fetch_trending ::
  "py_error + 'i list \<Rightarrow> py_error + 'i list \<Rightarrow> ('i \<Rightarrow> py_error + 'r) \<Rightarrow> int
     \<Rightarrow> py_error + 'r list" where
  "weibo_fetch_trending fetch_from_html fetch_from_mobile_api convert limit =
     (case (case fetch_from_html of
              Inl e \<Rightarrow> Inl e
            | Inr items \<Rightarrow>
                (case (if items = [] then fetch_from_mobile_api else Inr items) of
                   Inl e \<Rightarrow> Inl e
                 | Inr items' \<Rightarrow> convert_items convert (slice_to items' limit))) of
        Inl e \<Rightarrow> Inr []
      | Inr results \<Rightarrow> Inr results)"

text \<open>\<open>ZhihuFetcher.fetch_trending\<close>: one source, the same handler.\<close>

definition zhihu_fetch_trending ::
  "py_error + 'i list \<Rightarrow> ('i \<Rightarrow> py_error + 'r) \<Rightarrow> int \<Rightarrow> py_error + 'r list" where
  "zhihu_fetch_trending fetch_from_api convert limit =
     (case (case fetch_from_api of
              Inl e \<Rightarrow> Inl e
            | Inr items \<Rightarrow> convert_items convert (slice_to items limit)) of
        Inl e \<Rightarrow> Inr []
      | Inr results \<Rightarrow> Inr results)"

text \<open>
  \<open>BilibiliFetcher.fetch_trending\<close>: the hot words, the trending square when there
  were none, the same handler.
\<close>

definition bilibili_fetch_trending ::
  "py_error + 'i list \<Rightarrow> py_error + 'i list \<Rightarrow> ('i \<Rightarrow> py_error + 'r) \<Rightarrow> int
     \<Rightarrow> py_error + 'r list" where
  "bilibili_fetch_trending fetch_hotword fetch_trending_square convert limit =
     (case (case fetch_hotword of
              Inl e \<Rightarrow> Inl e
            | Inr items \<Rightarrow>
                (case (if items = [] then fetch_trending_square else Inr items) of
                   Inl e \<Rightarrow> Inl e
                 | Inr items' \<Rightarrow> convert_items convert (slice_to items' limit))) of
        Inl e \<Rightarrow> Inr []
      | Inr results \<Rightarrow> Inr results)"




section \<open>Archive statistics (services/github_archive.py, aggregate_yearly_stats)\<close>

text \<open>
  \<open>HotSearchItem\<close> and \<open>YearlyTrendItem\<close> are dataclasses; the per-keyword statistics
  are a dict with fixed keys. \<open>keyword_stats\<close> and the \<open>Counter\<close> of dates are
  association lists in insertion order, the set of dates a duplicate-free list.
\<close>

record hot_search_item =
  hs_title :: pystr
  hs_url :: pystr
  hs_date :: pystr

record kw_stats =
  ks_total_appearances :: nat
  ks_dates :: "pystr list"
  ks_first_seen :: pystr
  ks_last_seen :: pystr
  ks_date_counts :: "(pystr \<times> nat) list"

record yearly_trend_item =
  yt_keyword :: pystr
  yt_total_appearances :: nat
  yt_days_on_list :: nat
  yt_peak_date :: pystr
  yt_first_seen :: pystr
  yt_last_seen :: pystr
  yt_avg_appearances_per_day :: pyfloat
  yt_burst_score :: pyfloat
  yt_peak_intensity :: nat

definition new_stats :: "pystr \<Rightarrow> kw_stats" where
  "new_stats date =
     \<lparr>ks_total_appearances = 0, ks_dates = [], ks_first_seen = date, ks_last_seen = date,
      ks_date_counts = []\<rparr>"

text \<open>\<open>counter[k] += 1\<close>; a missing key counts as 0.\<close>

fun counter_incr :: "('k \<times> nat) list \<Rightarrow> 'k \<Rightarrow> ('k \<times> nat) list" where
  "counter_incr [] k = [(k, 0 + 1)]"
| "counter_incr ((k', c) # kcs) k =
     (if k' = k then (k', c + 1) # kcs else (k', c) # counter_incr kcs k)"

text \<open>The updates of the first loop's body on \<open>stats\<close>.\<close>

definition count_item :: "pystr \<Rightarrow> kw_stats \<Rightarrow> kw_stats" where
  "count_item date stats =
     (let s1 = stats\<lparr>ks_total_appearances := ks_total_appearances stats + 1,
                     ks_dates := (if date \<in> set (ks_dates stats) then ks_dates stats
                                  else ks_dates stats @ [date]),
                     ks_date_counts := counter_incr (ks_date_counts stats) date\<rparr>;
          s2 = (if date < ks_first_seen s1 then s1\<lparr>ks_first_seen := date\<rparr> else s1)
      in (if ks_last_seen s2 < date then s2\<lparr>ks_last_seen := date\<rparr> else s2))"

text \<open>
  One step of the first loop. \<open>is_blacklisted\<close> tests a title against the tables
  \<open>BLACKLIST_KEYWORDS\<close> and \<open>BLACKLIST_PATTERNS\<close> with the regular expression library;
  it is a parameter, and what is shown about the ordering holds for every such
  predicate.
\<close>

definition stats_step ::
  "(pystr \<Rightarrow> bool) \<Rightarrow> bool \<Rightarrow> (pystr \<times> kw_stats) list \<Rightarrow> hot_search_item
     \<Rightarrow> (pystr \<times> kw_stats) list" where
  "stats_step is_blacklisted filter_blacklist keyword_stats it =
     (if filter_blacklist \<and> is_blacklisted (hs_title it) then keyword_stats
      else km_update (hs_title it) (new_stats (hs_date it)) (count_item (hs_date it))
             keyword_stats)"

text \<open>
  \<open>Counter.most_common(1)[0]\<close>: the first pair, in insertion order, with the largest
  count; \<open>IndexError\<close> on an empty counter.
\<close>

fun first_max_from :: "'k \<times> nat \<Rightarrow> ('k \<times> nat) list \<Rightarrow> 'k \<times> nat" where
  "first_max_from best [] = best"
| "first_max_from best (kc # kcs) =
     first_max_from (if snd best < snd kc then kc else best) kcs"

definition most_common_1 :: "('k \<times> nat) list \<Rightarrow> py_error + ('k \<times> nat)" where
  "most_common_1 kcs = (case kcs of [] \<Rightarrow> Inl IndexError | kc # rest \<Rightarrow> Inr (first_max_from kc rest))"

text \<open>
  The body of the second loop for one keyword. \<open>strptime\<close> maps a \<open>YYYY-MM-DD\<close>
  string to its day number or raises \<open>ValueError\<close>; it is the parameter \<open>strptime\<close>.
  The average is \<open>round(total_appearances / max(days_on_list, 1), 2)\<close>.
\<close>

definition trend_item ::
  "(int \<Rightarrow> pyfloat) \<Rightarrow> (pystr \<Rightarrow> int option) \<Rightarrow> pystr \<Rightarrow> kw_stats
     \<Rightarrow> py_error + yearly_trend_item" where
  "trend_item math_log5 strptime keyword stats =
     (case most_common_1 (ks_date_counts stats) of
        Inl e \<Rightarrow> Inl e
      | Inr (peak_date, peak_intensity) \<Rightarrow>
          (let days_on_list = length (ks_dates stats) in
           case strptime (ks_first_seen stats) of
             None \<Rightarrow> Inl ValueError
           | Some first_dt \<Rightarrow>
               (case strptime (ks_last_seen stats) of
                  None \<Rightarrow> Inl ValueError
                | Some last_dt \<Rightarrow>
                    (let lifespan_days = last_dt - first_dt + 1 in
                     case calculate_burst_score math_log5 (int (ks_total_appearances stats))
                            (int days_on_list) (int peak_intensity) lifespan_days of
                       Inl e \<Rightarrow> Inl e
                     | Inr burst_score \<Rightarrow>
                         (case int_truediv (int (ks_total_appearances stats))
                                 (int (max days_on_list 1)) of
                            Inl e \<Rightarrow> Inl e
                          | Inr avg \<Rightarrow>
                              Inr \<lparr>yt_keyword = keyword,
                                   yt_total_appearances = ks_total_appearances stats,
                                   yt_days_on_list = days_on_list,
                                   yt_peak_date = peak_date,
                                   yt_first_seen = ks_first_seen stats,
                                   yt_last_seen = ks_last_seen stats,
                                   yt_avg_appearances_per_day = fround2 avg,
                                   yt_burst_score = burst_score,
                                   yt_peak_intensity = peak_intensity\<rparr>)))))"

text \<open>The second loop over \<open>keyword_stats.items()\<close>.\<close>

fun build_results ::
  "(int \<Rightarrow> pyfloat) \<Rightarrow> (pystr \<Rightarrow> int option) \<Rightarrow> (pystr \<times> kw_stats) list
     \<Rightarrow> py_error + yearly_trend_item list" where
  "build_results math_log5 strptime [] = Inr []"
| "build_results math_log5 strptime ((keyword, stats) # rest) =
     (case trend_item math_log5 strptime keyword stats of
        Inl e \<Rightarrow> Inl e
      | Inr r \<Rightarrow>
          (case build_results math_log5 strptime rest of
             Inl e \<Rightarrow> Inl e
           | Inr results \<Rightarrow> Inr (r # results)))"

definition unsorted_stats ::
  "(int \<Rightarrow> pyfloat) \<Rightarrow> (pystr \<Rightarrow> int option) \<Rightarrow> (pystr \<Rightarrow> bool) \<Rightarrow> hot_search_item list
     \<Rightarrow> bool \<Rightarrow> py_error + yearly_trend_item list" where
  "unsorted_stats math_log5 strptime is_blacklisted items filter_blacklist =
     build_results math_log5 strptime
       (foldl (stats_step is_blacklisted filter_blacklist) [] items)"

text \<open>
  The three sorts. The burst scores are compared as floats, through the order embedding
  \<open>fkey\<close>; the two counts are ints. No burst score of the aggregation is a NaN
  (as long as \<open>math.log\<close> returns none), so the comparison of the keys is a total
  order.
\<close>

definition aggregate_yearly_stats ::
  "(int \<Rightarrow> pyfloat) \<Rightarrow> (pystr \<Rightarrow> int option) \<Rightarrow> (pystr \<Rightarrow> bool) \<Rightarrow> hot_search_item list
     \<Rightarrow> bool \<Rightarrow> pystr \<Rightarrow> py_error + yearly_trend_item list" where
  "aggregate_yearly_stats math_log5 strptime is_blacklisted items filter_blacklist sort_by =
     (case unsorted_stats math_log5 strptime is_blacklisted items filter_blacklist of
        Inl e \<Rightarrow> Inl e
      | Inr results \<Rightarrow>
          if sort_by = str ''burst'' then Inr (sort_desc (\<lambda>x. fkey (yt_burst_score x)) results)
          else if sort_by = str ''days'' then Inr (sort_desc (\<lambda>x. real (yt_days_on_list x)) results)
          else Inr (sort_desc (\<lambda>x. real (yt_total_appearances x)) results))"

text \<open>The key that a sort mode selects.\<close>

definition sort_key_of :: "pystr \<Rightarrow> yearly_trend_item \<Rightarrow> real" where
  "sort_key_of sort_by x =
     (if sort_by = str ''burst'' then fkey (yt_burst_score x)
      else if sort_by = str ''days'' then real (yt_days_on_list x)
      else real (yt_total_appearances x))"

text \<open>The titles that pass the denylist, in corpus order.\<close>

definition surviving_titles :: "(pystr \<Rightarrow> bool) \<Rightarrow> bool \<Rightarrow> hot_search_item list \<Rightarrow> pystr list" where
  "surviving_titles is_blacklisted filter_blacklist items =
     map hs_title (filter (\<lambda>it. \<not> (filter_blacklist \<and> is_blacklisted (hs_title it))) items)"

text \<open>Sample archive items and a sample day numbering for the dates used in them.\<close>

definition hot :: "string \<Rightarrow> string \<Rightarrow> hot_search_item" where
  "hot title date = \<lparr>hs_title = str title, hs_url = [], hs_date = str date\<rparr>"

definition sample_strptime :: "pystr \<Rightarrow> int option" where
  "sample_strptime s =
     (if s = str ''2024-03-01'' then Some 738946
      else if s = str ''2024-03-02'' then Some 738947
      else None)"


section \<open>RealScore (services/real_score.py)\<close>

text \<open>
  \<open>trend_data\<close> is a \<open>Dict[str, Any]\<close>: its values are Python values of any type.
  The model has the types the scoring code can tell apart: \<open>None\<close>, \<open>bool\<close>, \<open>int\<close>,
  \<open>float\<close> and \<open>str\<close>.
\<close>

datatype pyval = PNone | PBool bool | PInt int | PFloat pyfloat | PStr pystr

text \<open>
  A value as arithmetic and comparisons see it: an \<open>int\<close> (a \<open>bool\<close> is the int 0 or
  1) or a float; \<open>None\<close> and a string are no numbers.
\<close>

datatype pynum = NInt int | NFloat pyfloat

definition num_of :: "pyval \<Rightarrow> pynum option" where
  "num_of v =
     (case v of
        PBool b \<Rightarrow> Some (NInt (if b then 1 else 0))
      | PInt n \<Rightarrow> Some (NInt n)
      | PFloat x \<Rightarrow> Some (NFloat x)
      | _ \<Rightarrow> None)"

text \<open>
  \<open>x <= c\<close> and \<open>x == c\<close> for a number \<open>x\<close> and an int literal \<open>c\<close>: Python
  compares an int and a float by their exact values, and a NaN compares false.
\<close>

fun num_le :: "pynum \<Rightarrow> int \<Rightarrow> bool" where
  "num_le (NInt n) c \<longleftrightarrow> n \<le> c"
| "num_le (NFloat (Fin x)) c \<longleftrightarrow> x \<le> of_int c"
| "num_le (NFloat PInf) c \<longleftrightarrow> False"
| "num_le (NFloat NInf) c \<longleftrightarrow> True"
| "num_le (NFloat NaN) c \<longleftrightarrow> False"

fun num_eq :: "pynum \<Rightarrow> int \<Rightarrow> bool" where
  "num_eq (NInt n) c \<longleftrightarrow> n = c"
| "num_eq (NFloat (Fin x)) c \<longleftrightarrow> x = of_int c"
| "num_eq (NFloat PInf) c \<longleftrightarrow> False"
| "num_eq (NFloat NInf) c \<longleftrightarrow> False"
| "num_eq (NFloat NaN) c \<longleftrightarrow> False"

text \<open>\<open>x - 2\<close>: an int stays an int, a float is subtracted in double precision.\<close>

fun sub_two :: "pynum \<Rightarrow> pynum" where
  "sub_two (NInt n) = NInt (n - 2)"
| "sub_two (NFloat x) = NFloat (fsub x (Fin 2))"

text \<open>A number as an operand of float arithmetic: an \<open>int\<close> is converted first.\<close>

fun as_float :: "pynum \<Rightarrow> py_error + pyfloat" where
  "as_float (NInt n) = float_of_int n"
| "as_float (NFloat x) = Inr x"

text \<open>A value as the left operand of \<open>*\<close> with a float: \<open>TypeError\<close> for no number.\<close>

definition to_float :: "pyval \<Rightarrow> py_error + pyfloat" where
  "to_float v = (case num_of v of None \<Rightarrow> Inl TypeError | Some n \<Rightarrow> as_float n)"

text \<open>Truth value of an object in a condition.\<close>

definition truthy :: "pyval \<Rightarrow> bool" where
  "truthy v =
     (case v of
        PNone \<Rightarrow> False
      | PBool b \<Rightarrow> b
      | PInt n \<Rightarrow> n \<noteq> 0
      | PFloat x \<Rightarrow> x \<noteq> Fin 0
      | PStr s \<Rightarrow> s \<noteq> [])"

text \<open>
  \<open>1.5 ** y\<close> for a float \<open>y\<close>: the power rounded to the nearest double, and
  \<open>OverflowError\<close> when a finite exponent gives a result beyond the largest double.
  (The C library's \<open>pow\<close> is taken to round correctly; powers of 1.5 up to the 33rd
  are doubles themselves.)
\<close>

fun float_pow_1_5 :: "pyfloat \<Rightarrow> py_error + pyfloat" where
  "float_pow_1_5 (Fin y) =
     (case fl_round ((3 / 2) powr y) of
        Fin z \<Rightarrow> Inr (Fin z)
      | _ \<Rightarrow> Inl OverflowError)"
| "float_pow_1_5 PInf = Inr PInf"
| "float_pow_1_5 NInf = Inr (Fin 0)"
| "float_pow_1_5 NaN = Inr NaN"

text \<open>\<open>x < y\<close> on floats, and \<open>min(a, b)\<close>, which returns \<open>b\<close> only when \<open>b < a\<close>.\<close>

definition flt :: "pyfloat \<Rightarrow> pyfloat \<Rightarrow> bool" where
  "flt x y \<longleftrightarrow> x \<noteq> NaN \<and> y \<noteq> NaN \<and> fkey x < fkey y"

definition py_min :: "pyfloat \<Rightarrow> pyfloat \<Rightarrow> pyfloat" where
  "py_min a b = (if flt b a then b else a)"

text \<open>
  \<open>calculate_platform_multiplier\<close>. The comparisons raise \<open>TypeError\<close> on a value that
  is no number; \<open>1.5 ** (platform_count - 2)\<close> raises \<open>OverflowError\<close> when the
  exponent is an int too large for a float or the power is out of the float range,
  before \<open>min\<close> is applied.
\<close>

definition calculate_platform_multiplier :: "pyval \<Rightarrow> py_error + pyfloat" where
  "calculate_platform_multiplier platform_count =
     (case num_of platform_count of
        None \<Rightarrow> Inl TypeError
      | Some n \<Rightarrow>
          if num_le n 0 then Inr (Fin 0)
          else if num_eq n 1 then Inr (fl_round (3 / 10))
          else if num_eq n 2 then Inr (Fin 1)
          else
            (case as_float (sub_two n) of
               Inl e \<Rightarrow> Inl e
             | Inr y \<Rightarrow>
                 (case float_pow_1_5 y of
                    Inl e \<Rightarrow> Inl e
                  | Inr multiplier \<Rightarrow> Inr (py_min multiplier (Fin 5)))))"

text \<open>
  A parsed \<open>datetime\<close>: its position on the time line in microseconds (of the UTC
  instant when it carries an offset) and whether it carries an offset.
  \<open>datetime.fromisoformat\<close> is the parameter \<open>fromisoformat\<close>; \<open>None\<close> is its
  \<open>ValueError\<close>.
\<close>

record pydatetime =
  dt_micros :: int
  dt_aware :: bool

text \<open>\<open>(last - first).days\<close>: the whole days from the first to the last datetime, rounded down.\<close>

definition whole_days :: "pydatetime \<Rightarrow> pydatetime \<Rightarrow> int" where
  "whole_days first_dt last_dt = (dt_micros last_dt - dt_micros first_dt) div 86400000000"

text \<open>
  The body of the \<open>try\<close> block of \<open>calculate_longevity_factor\<close>:
  \<open>fromisoformat\<close> raises \<open>TypeError\<close> on a value that is no string and
  \<open>ValueError\<close> on a malformed one, the subtraction raises \<open>TypeError\<close> when only one
  of the two carries an offset, and \<open>math.log2\<close> raises \<open>ValueError\<close> on an argument
  that is not positive.
\<close>

definition longevity_try ::
  "(pystr \<Rightarrow> pydatetime option) \<Rightarrow> pyval \<Rightarrow> pyval \<Rightarrow> py_error + real" where
  "longevity_try fromisoformat first_seen last_seen =
     (case first_seen of
        PStr fs \<Rightarrow>
          (case fromisoformat fs of
             None \<Rightarrow> Inl ValueError
           | Some first_dt \<Rightarrow>
               (case last_seen of
                  PStr ls \<Rightarrow>
                    (case fromisoformat ls of
                       None \<Rightarrow> Inl ValueError
                     | Some last_dt \<Rightarrow>
                         if dt_aware last_dt \<noteq> dt_aware first_dt then Inl TypeError
                         else
                           (let days = whole_days first_dt last_dt + 1
                            in if days + 1 \<le> 0 then Inl ValueError
                               else Inr (log 2 (real_of_int (days + 1)))))
                | _ \<Rightarrow> Inl TypeError))
      | _ \<Rightarrow> Inl TypeError)"

text \<open>The \<open>try\<close> with its handler \<open>except (ValueError, TypeError): return 1.0\<close>.\<close>

definition calculate_longevity_factor ::
  "(pystr \<Rightarrow> pydatetime option) \<Rightarrow> pyval \<Rightarrow> pyval \<Rightarrow> py_error + real" where
  "calculate_longevity_factor fromisoformat first_seen last_seen =
     (case longevity_try fromisoformat first_seen last_seen of
        Inl e \<Rightarrow> if e = ValueError \<or> e = TypeError then Inr 1 else Inl e
      | Inr v \<Rightarrow> Inr v)"

text \<open>
  \<open>calculate_marketing_penalty\<close>. Whether one of the compiled \<open>MARKETING_PATTERNS\<close>
  matches the keyword is decided by the regular expression library: the parameter
  \<open>matches_pattern\<close>. \<open>pattern.match\<close> raises \<open>TypeError\<close> on a keyword that is no
  string.
\<close>

definition calculate_marketing_penalty ::
  "(pystr \<Rightarrow> bool) \<Rightarrow> pyval \<Rightarrow> pyval \<Rightarrow> py_error + pyfloat" where
  "calculate_marketing_penalty matches_pattern keyword is_marketing_flag =
     (if truthy is_marketing_flag then Inr (fl_round (8 / 10))
      else
        (case keyword of
           PStr k \<Rightarrow> if matches_pattern k then Inr (fl_round (5 / 10)) else Inr (Fin 0)
         | _ \<Rightarrow> Inl TypeError))"

text \<open>\<open>d.get(k, default)\<close>.\<close>

definition dict_get :: "(pystr \<rightharpoonup> pyval) \<Rightarrow> pystr \<Rightarrow> pyval \<Rightarrow> pyval" where
  "dict_get d k dflt = (case d k of None \<Rightarrow> dflt | Some v \<Rightarrow> v)"

text \<open>
  The float that \<open>calculate_longevity_factor\<close> hands back: \<open>math.log2\<close> is taken to
  return the double nearest to the logarithm (the logarithm of an int is far inside the
  float range, so there is no overflow), and \<open>1.0\<close> is a double.
\<close>

definition float_of_log :: "real \<Rightarrow> pyfloat" where
  "float_of_log x = Fin (fl x)"

text \<open>
  \<open>calculate_real_score\<close>. The three factors are computed first, in the order of the
  source; the product \<open>base_heat * platform_multiplier * longevity_factor *
  (1 - marketing_penalty)\<close> is evaluated from left to right in double precision, and
  \<open>round(real_score, 2)\<close> is applied to it.
\<close>

definition calculate_real_score ::
  "(pystr \<Rightarrow> pydatetime option) \<Rightarrow> (pystr \<Rightarrow> bool) \<Rightarrow> (pystr \<rightharpoonup> pyval)
     \<Rightarrow> py_error + pyfloat" where
  "calculate_real_score fromisoformat matches_pattern trend_data =
     (let keyword = dict_get trend_data (str ''keyword'') (PStr []);
          base_heat = dict_get trend_data (str ''raw_heat_score'') (PInt 0);
          platform_count = dict_get trend_data (str ''platform_count'') (PInt 1);
          first_seen = dict_get trend_data (str ''first_seen'') (PStr []);
          last_seen = dict_get trend_data (str ''last_seen'') (PStr []);
          is_marketing = dict_get trend_data (str ''is_marketing'') (PBool False)
      in case calculate_platform_multiplier platform_count of
           Inl e \<Rightarrow> Inl e
         | Inr platform_multiplier \<Rightarrow>
             (case calculate_longevity_factor fromisoformat first_seen last_seen of
                Inl e \<Rightarrow> Inl e
              | Inr longevity_factor \<Rightarrow>
                  (case calculate_marketing_penalty matches_pattern keyword is_marketing of
                     Inl e \<Rightarrow> Inl e
                   | Inr marketing_penalty \<Rightarrow>
                       (case to_float base_heat of
                          Inl e \<Rightarrow> Inl e
                        | Inr b \<Rightarrow>
                            Inr (fround2
                                   (fmul (fmul (fmul b platform_multiplier)
                                            (float_of_log longevity_factor))
                                      (fsub (Fin 1) marketing_penalty)))))))"

text \<open>The longevity formula as the specification words it (section 4.4).\<close>

definition longevity_spec :: "int \<Rightarrow> real" where
  "longevity_spec days_active = log 2 (real_of_int days_active + 1)"

text \<open>
  The fields of a dict have their documented types. \<open>keyword\<close> is a string (it is not
  looked at when the marketing flag is set). \<open>raw_heat_score\<close> is a float, or an int
  (or bool) that a float can hold: one below \<open>2^1024 - 2^970\<close> in magnitude, the first
  value that rounds beyond the largest double. \<open>platform_count\<close> is an int (or bool) of
  at most 1752, the last one whose power \<open>1.5 ** (platform_count - 2)\<close> is a double.
  A missing field is well typed; \<open>first_seen\<close>, \<open>last_seen\<close> and \<open>is_marketing\<close>
  may hold anything.
\<close>

definition keyword_typed :: "(pystr \<rightharpoonup> pyval) \<Rightarrow> bool" where
  "keyword_typed trend_data =
     (case dict_get trend_data (str ''keyword'') (PStr []) of
        PStr k \<Rightarrow> True
      | _ \<Rightarrow> truthy (dict_get trend_data (str ''is_marketing'') (PBool False)))"

definition heat_typed :: "(pystr \<rightharpoonup> pyval) \<Rightarrow> bool" where
  "heat_typed trend_data =
     (case dict_get trend_data (str ''raw_heat_score'') (PInt 0) of
        PFloat x \<Rightarrow> True
      | PInt n \<Rightarrow> \<bar>real_of_int n\<bar> < 2 ^ 1024 - 2 ^ 970
      | PBool b \<Rightarrow> True
      | _ \<Rightarrow> False)"

definition count_typed :: "(pystr \<rightharpoonup> pyval) \<Rightarrow> bool" where
  "count_typed trend_data =
     (case dict_get trend_data (str ''platform_count'') (PInt 1) of
        PInt n \<Rightarrow> n \<le> 1752
      | PBool b \<Rightarrow> True
      | _ \<Rightarrow> False)"

definition documented_types :: "(pystr \<rightharpoonup> pyval) \<Rightarrow> bool" where
  "documented_types trend_data \<longleftrightarrow>
     keyword_typed trend_data \<and> heat_typed trend_data \<and> count_typed trend_data"

text \<open>The defaults of the six lookups, as a dict.\<close>

definition default_fields :: "pystr \<rightharpoonup> pyval" where
  "default_fields =
     [str ''keyword'' \<mapsto> PStr [], str ''raw_heat_score'' \<mapsto> PInt 0,
      str ''platform_count'' \<mapsto> PInt 1, str ''first_seen'' \<mapsto> PStr [],
      str ''last_seen'' \<mapsto> PStr [], str ''is_marketing'' \<mapsto> PBool False]"

text \<open>
  A parser instance for the examples: it knows the date strings used in them (as
  midnight of that day, counted in microseconds from day 1 of the calendar, one of them
  with a UTC offset) and rejects every other string.
\<close>

definition sample_fromisoformat :: "pystr \<Rightarrow> pydatetime option" where
  "sample_fromisoformat s =
     (if s = str ''2024-03-01'' then Some \<lparr>dt_micros = 738946 * 86400000000, dt_aware = False\<rparr>
      else if s = str ''2024-03-02'' then Some \<lparr>dt_micros = 738947 * 86400000000, dt_aware = False\<rparr>
      else if s = str ''2024-03-04'' then Some \<lparr>dt_micros = 738949 * 86400000000, dt_aware = False\<rparr>
      else if s = str ''2024-03-02T00:00:00+00:00''
        then Some \<lparr>dt_micros = 738947 * 86400000000, dt_aware = True\<rparr>
      else None)"


section \<open>Properties of rounding\<close>

lemma rhe_near: "\<bar>of_int (rhe y) - y\<bar> \<le> 1 / 2"
proof -
  define f where "f = \<lfloor>y\<rfloor>"
  have b: "real_of_int f \<le> y" "y < real_of_int f + 1"
    unfolding f_def by linarith+
  have "rhe y = f \<and> y - real_of_int f \<le> 1 / 2
      \<or> rhe y = f + 1 \<and> 1 / 2 \<le> y - real_of_int f"
    unfolding rhe_def Let_def f_def [symmetric] by auto
  with b show ?thesis by (auto simp: abs_if)
qed

lemma rhe_of_int: "rhe (of_int n) = n"
  unfolding rhe_def Let_def by simp

lemma rhe_nonneg: "0 \<le> y \<Longrightarrow> 0 \<le> rhe y"
proof -
  assume "0 \<le> y"
  then have "0 \<le> \<lfloor>y\<rfloor>" by simp
  then show ?thesis unfolding rhe_def Let_def by auto
qed

lemma ulp_exp_eq:
  assumes "(2::real) powr of_int (e + 52) \<le> \<bar>x\<bar>" and "\<bar>x\<bar> < (2::real) powr of_int (e + 53)"
    and "- 1074 \<le> e"
  shows "ulp_exp x = e"
proof -
  have pos: "0 < \<bar>x\<bar>"
    using assms(1) powr_gt_zero [of 2 "of_int (e + 52)"] by linarith
  have "\<lfloor>log 2 \<bar>x\<bar>\<rfloor> = e + 52"
    using assms(1,2) pos by (subst floor_log_eq_powr_iff) (simp_all add: add.commute add.left_commute)
  then show ?thesis using assms(3) unfolding ulp_exp_def by simp
qed

lemma fl_at:
  assumes "(2::real) powr of_int (e + 52) \<le> \<bar>x\<bar>" and "\<bar>x\<bar> < (2::real) powr of_int (e + 53)"
    and "- 1074 \<le> e"
  shows "fl x = of_int (rhe (x / 2 powr of_int e)) * (2::real) powr of_int e"
proof -
  have "x \<noteq> 0" using assms(1) powr_gt_zero [of 2 "of_int (e + 52)"] by auto
  then show ?thesis unfolding fl_def by (simp add: ulp_exp_eq [OF assms])
qed

lemma fl_zero: "fl 0 = 0"
  by (simp add: fl_def)

lemma fl_nonneg: "0 \<le> x \<Longrightarrow> 0 \<le> fl x"
  unfolding fl_def by (auto intro!: mult_nonneg_nonneg rhe_nonneg divide_nonneg_nonneg)

lemma fl_error:
  "\<bar>fl x - x\<bar> \<le> (2::real) powr of_int (ulp_exp x) / 2"
proof (cases "x = 0")
  case True
  then show ?thesis by (simp add: fl_zero)
next
  case False
  let ?p = "2 powr of_int (ulp_exp x) :: real"
  have p: "0 < ?p" by simp
  have "fl x - x = (of_int (rhe (x / ?p)) - x / ?p) * ?p"
    using False by (simp add: fl_def algebra_simps)
  then have "\<bar>fl x - x\<bar> = \<bar>of_int (rhe (x / ?p)) - x / ?p\<bar> * ?p"
    using p by (simp add: abs_mult)
  also have "\<dots> \<le> 1 / 2 * ?p"
    using rhe_near [of "x / ?p"] p by (intro mult_right_mono) simp_all
  finally show ?thesis by simp
qed

lemma fl_rel:
  assumes "(2::real) powr (- 1022) \<le> \<bar>x\<bar>"
  shows "\<bar>fl x - x\<bar> \<le> \<bar>x\<bar> / 2 ^ 53"
proof -
  have pos: "0 < \<bar>x\<bar>" using assms powr_gt_zero [of 2 "- 1022"] by linarith
  define k where "k = \<lfloor>log 2 \<bar>x\<bar>\<rfloor>"
  have kb: "(2::real) powr of_int k \<le> \<bar>x\<bar>"
    using floor_log_eq_powr_iff [of "\<bar>x\<bar>" 2 k] pos unfolding k_def by simp
  have "log 2 (2 powr (- 1022)) \<le> log 2 \<bar>x\<bar>"
    using assms pos by (subst log_le_cancel_iff) simp_all
  then have "- 1022 \<le> log 2 \<bar>x\<bar>" by simp
  then have "- 1022 \<le> k" unfolding k_def by linarith
  then have ue: "ulp_exp x = k - 52" unfolding ulp_exp_def k_def [symmetric] by simp
  have "(2::real) powr of_int (k - 52) = 2 powr of_int k / 2 ^ 52"
    by (simp add: powr_diff)
  then have "(2::real) powr of_int (ulp_exp x) / 2 = 2 powr of_int k / 2 ^ 53"
    using ue by simp
  also have "\<dots> \<le> \<bar>x\<bar> / 2 ^ 53"
    using kb by (simp add: divide_right_mono)
  finally show ?thesis using fl_error [of x] by linarith
qed

lemma fl_repr:
  assumes "\<bar>m\<bar> < 2 ^ 53" and "- 1074 \<le> e"
  shows "fl (of_int m * 2 powr of_int e) = of_int m * (2::real) powr of_int e"
proof (cases "m = 0")
  case True
  then show ?thesis by (simp add: fl_zero)
next
  case False
  let ?x = "of_int m * 2 powr of_int e :: real"
  have x0: "?x \<noteq> 0" using False by simp
  have ax: "\<bar>?x\<bar> = of_int \<bar>m\<bar> * 2 powr of_int e"
    by (simp add: abs_mult)
  have "\<bar>?x\<bar> < 2 ^ 53 * 2 powr of_int e"
  proof -
    have "(of_int \<bar>m\<bar> :: real) < 2 ^ 53"
      using assms(1) by (metis of_int_less_numeral_power_cancel_iff)
    then show ?thesis unfolding ax by (intro mult_strict_right_mono) simp_all
  qed
  also have "\<dots> = (2::real) powr of_int (e + 53)"
    by (simp add: powr_add)
  finally have up: "\<bar>?x\<bar> < 2 powr of_int (e + 53)" .
  have "0 < \<bar>?x\<bar>" using x0 by simp
  then have "log 2 \<bar>?x\<bar> < of_int (e + 53)"
    using up by (subst log_less_iff) simp_all
  then have "\<lfloor>log 2 \<bar>?x\<bar>\<rfloor> < e + 53"
    by (simp only: floor_less_iff)
  then have le: "ulp_exp ?x \<le> e"
    using assms(2) unfolding ulp_exp_def by simp
  define d where "d = nat (e - ulp_exp ?x)"
  have e_eq: "e = ulp_exp ?x + int d" using le unfolding d_def by simp
  define p :: real where "p = 2 powr of_int (ulp_exp ?x)"
  define pe :: real where "pe = 2 powr of_int e"
  have p0: "0 < p" unfolding p_def by simp
  have split: "pe = p * 2 ^ d"
    unfolding pe_def p_def by (subst e_eq) (simp add: powr_add powr_realpow)
  have "of_int m * pe / p = of_int m * 2 ^ d"
    using p0 unfolding split by simp
  then have q: "of_int m * pe / p = of_int (m * 2 ^ d)"
    by simp
  have "fl ?x = of_int (rhe (?x / 2 powr of_int (ulp_exp ?x))) * 2 powr of_int (ulp_exp ?x)"
    using x0 unfolding fl_def by simp
  also have "\<dots> = of_int (rhe (of_int m * pe / p)) * p"
    unfolding p_def pe_def ..
  also have "\<dots> = of_int (m * 2 ^ d) * p"
    unfolding q rhe_of_int ..
  also have "\<dots> = of_int m * pe"
    unfolding split by simp
  finally show ?thesis unfolding pe_def .
qed

lemma fl_of_int:
  assumes "\<bar>m\<bar> < 2 ^ 53"
  shows "fl (of_int m) = of_int m"
  using fl_repr [OF assms, of 0] by simp


lemma fl_round_Fin:
  assumes "\<bar>fl x\<bar> < 2 ^ 1024"
  shows "fl_round x = Fin (fl x)"
  using assms unfolding fl_round_def Let_def by (auto simp: abs_if split: if_splits)

lemma fl_round_repr:
  assumes "\<bar>m\<bar> < 2 ^ 53" and "- 1074 \<le> e" and "e \<le> 900"
  shows "fl_round (of_int m * 2 powr of_int e) = Fin (of_int m * 2 powr of_int e)"
proof -
  have "\<bar>of_int m * 2 powr of_int e\<bar> = of_int \<bar>m\<bar> * (2::real) powr of_int e"
    by (simp add: abs_mult)
  also have "\<dots> \<le> 2 ^ 53 * (2::real) powr 900"
  proof (intro mult_mono)
    show "(of_int \<bar>m\<bar> :: real) \<le> 2 ^ 53"
      using assms(1) by (metis less_imp_le of_int_le_numeral_power_cancel_iff)
    show "(2::real) powr of_int e \<le> 2 powr 900"
      using assms(3) by (intro powr_mono) simp_all
  qed simp_all
  also have "\<dots> = (2::real) ^ 953"
    by (simp add: power_add [symmetric])
  also have "\<dots> < (2::real) ^ 1024"
    by (rule power_strict_increasing) simp_all
  finally have "\<bar>fl (of_int m * 2 powr of_int e)\<bar> < 2 ^ 1024"
    by (simp only: fl_repr [OF assms(1,2)])
  then show ?thesis
    by (simp only: fl_round_Fin fl_repr [OF assms(1,2)])
qed

lemma fl_round_of_int:
  assumes "\<bar>m\<bar> < 2 ^ 53"
  shows "fl_round (of_int m) = Fin (of_int m)"
  using fl_round_repr [OF assms, of 0] by simp

lemma rn_pos: "0 < (1 - 1 / 2 ^ 53 :: real) ^ k"
  by simp

lemma rn_le_one: "(1 - 1 / 2 ^ 53 :: real) ^ k \<le> 1"
  by (rule power_le_one) simp_all

lemma rn_half:
  assumes "k \<le> 16"
  shows "1 / 2 \<le> (1 - 1 / 2 ^ 53 :: real) ^ k"
proof -
  have "(1 - real 16 * (1 / 2 ^ 53)) \<le> (1 - 1 / 2 ^ 53 :: real) ^ 16"
    using Bernoulli_inequality [of "- (1 / 2 ^ 53)" 16] by simp
  moreover have "(1 / 2 :: real) \<le> 1 - real 16 * (1 / 2 ^ 53)"
    by simp
  moreover have "(1 - 1 / 2 ^ 53 :: real) ^ 16 \<le> (1 - 1 / 2 ^ 53) ^ k"
    using assms by (intro power_decreasing) simp_all
  ultimately show ?thesis by linarith
qed

lemma approx_pos:
  assumes "approx k a b" and "0 < b"
  shows "0 < a"
proof -
  have "0 < b * (1 - 1 / 2 ^ 53) ^ k"
    using assms(2) rn_pos [of k] by (intro mult_pos_pos)
  then show ?thesis using assms(1) unfolding approx_def by linarith
qed

lemma approx_refl: "approx 0 a a"
  unfolding approx_def by simp



lemma approx_weaken:
  assumes "approx k a b" and "0 < b" and "k \<le> j"
  shows "approx j a b"
proof -
  let ?r = "1 - 1 / 2 ^ 53 :: real"
  have a: "0 < a" using approx_pos assms by blast
  have le: "?r ^ j \<le> ?r ^ k"
    using assms(3) by (intro power_decreasing) simp_all
  have "b * ?r ^ j \<le> b * ?r ^ k" "a * ?r ^ j \<le> a * ?r ^ k"
    using le a assms(2) by (simp_all add: mult_left_mono)
  then show ?thesis
    using assms(1) unfolding approx_def by linarith
qed

lemma approx_fl:
  assumes "approx k a b" and "0 < b" and "(2::real) powr (- 1022) \<le> a"
  shows "approx (Suc k) (fl a) b"
proof -
  let ?u = "1 / 2 ^ 53 :: real"
  let ?r = "1 - ?u"
  have a: "0 < a" using approx_pos assms by blast
  have "\<bar>fl a - a\<bar> \<le> \<bar>a\<bar> / 2 ^ 53"
    using assms(3) a by (intro fl_rel) simp
  then have lo: "a * ?r \<le> fl a" and hi: "fl a \<le> a * (1 + ?u)"
    using a by (simp_all add: abs_if field_simps split: if_splits)
  have 1: "b * ?r ^ k \<le> a" and 2: "a * ?r ^ k \<le> b"
    using assms(1) unfolding approx_def by simp_all
  have "b * ?r ^ Suc k = (b * ?r ^ k) * ?r" by simp
  also have "\<dots> \<le> a * ?r"
    using 1 by (intro mult_right_mono) simp_all
  finally have A: "b * ?r ^ Suc k \<le> fl a" using lo by linarith
  have "(1 + ?u) * ?r \<le> 1" by (simp add: algebra_simps)
  then have "a * ?r ^ k * ((1 + ?u) * ?r) \<le> a * ?r ^ k * 1"
    using a rn_pos [of k] by (intro mult_left_mono) (simp_all add: less_imp_le)
  then have "a * (1 + ?u) * ?r ^ Suc k \<le> a * ?r ^ k"
    by (simp add: mult_ac)
  moreover have "fl a * ?r ^ Suc k \<le> a * (1 + ?u) * ?r ^ Suc k"
    using hi rn_pos [of "Suc k"] by (intro mult_right_mono) (simp_all add: less_imp_le)
  ultimately have B: "fl a * ?r ^ Suc k \<le> b" using 2 by linarith
  show ?thesis unfolding approx_def using A B by simp
qed

text \<open>
  A rounding step away from the ends of the exponent range: the result is finite and
  positive and one rounding further from the exact value.
\<close>

lemma approx_fl_round:
  assumes "approx k a b" and "1 / 2 ^ 1000 \<le> b" and "b \<le> 2 ^ 1000" and "k \<le> 15"
  shows "fl_round a = Fin (fl a) \<and> approx (Suc k) (fl a) b \<and> 0 < fl a"
proof -
  let ?r = "1 - 1 / 2 ^ 53 :: real"
  have "(0::real) < 1 / 2 ^ 1000" by simp
  then have b: "0 < b" using assms(2) by linarith
  have a: "0 < a" using approx_pos assms(1) b by blast
  have half: "1 / 2 \<le> ?r ^ k" "1 / 2 \<le> ?r ^ Suc k"
    using assms(4) by (intro rn_half; simp)+
  have 1: "b * ?r ^ k \<le> a" and 2: "a * ?r ^ k \<le> b"
    using assms(1) unfolding approx_def by simp_all
  have "b * (1 / 2) \<le> b * ?r ^ k"
    using half(1) b by (intro mult_left_mono) simp_all
  then have lo: "b / 2 \<le> a" using 1 by simp
  have "a * (1 / 2) \<le> a * ?r ^ k"
    using half(1) a by (intro mult_left_mono) simp_all
  then have hi: "a \<le> 2 * b" using 2 by simp
  have "(2::real) powr (- 1022) = 1 / 2 ^ 1022"
    by (simp add: powr_neg_numeral)
  also have "\<dots> \<le> 1 / 2 ^ 1001"
    by (intro divide_left_mono power_increasing) simp_all
  also have "\<dots> = (1 / 2 ^ 1000) / 2"
    by simp
  also have "\<dots> \<le> b / 2"
    using assms(2) by simp
  finally have norm: "(2::real) powr (- 1022) \<le> a" using lo by linarith
  have ap: "approx (Suc k) (fl a) b"
    by (rule approx_fl [OF assms(1) b norm])
  then have fpos: "0 < fl a" using approx_pos b by blast
  have "fl a * (1 / 2) \<le> fl a * ?r ^ Suc k"
    using half(2) fpos by (intro mult_left_mono) simp_all
  moreover have "fl a * ?r ^ Suc k \<le> b"
    using ap unfolding approx_def by simp
  ultimately have "fl a \<le> 2 * b" by simp
  also have "\<dots> \<le> 2 * 2 ^ 1000" using assms(3) by simp
  also have "\<dots> = (2::real) ^ 1001" by simp
  also have "\<dots> < (2::real) ^ 1024"
    by (rule power_strict_increasing) simp_all
  finally have "\<bar>fl a\<bar> < 2 ^ 1024" using fpos by simp
  then show ?thesis using ap fpos by (simp add: fl_round_Fin)
qed


lemma in_range_pos: "in_range n x \<Longrightarrow> 0 < x"
proof -
  assume "in_range n x"
  moreover have "(0::real) < 1 / 2 ^ n" by simp
  ultimately show ?thesis unfolding in_range_def by linarith
qed

lemma in_range_mono:
  assumes "in_range n x" and "n \<le> m"
  shows "in_range m x"
proof -
  have "(1::real) / 2 ^ m \<le> 1 / 2 ^ n"
    using assms(2) by (intro divide_left_mono power_increasing) simp_all
  moreover have "(2::real) ^ n \<le> 2 ^ m"
    using assms(2) by (intro power_increasing) simp_all
  ultimately show ?thesis using assms(1) unfolding in_range_def by linarith
qed




text \<open>One rounding of a value known up to \<open>k\<close> roundings, inside the exponent range.\<close>

lemma round_step:
  assumes "approx k a b" and "in_range n b" and "n \<le> 1000" and "k \<le> 15"
  shows "fl_round a = Fin (fl a) \<and> approx (Suc k) (fl a) b \<and> 0 < fl a"
proof -
  have "in_range 1000 b" using assms(2,3) by (rule in_range_mono)
  then show ?thesis
    using approx_fl_round [OF assms(1) _ _ assms(4)] unfolding in_range_def by simp
qed


section \<open>Properties of the burst score\<close>





lemma penalty_float:
  "\<exists>v. (if l \<le> 14 then Fin 1
         else if l \<le> 30 then fl_round (8 / 10)
         else if l \<le> 60 then fl_round (5 / 10)
         else fl_round (3 / 10)) = Fin v
       \<and> approx 1 v (lifespan_penalty_spec l) \<and> in_range 2 (lifespan_penalty_spec (l::int))"
proof -
  have r: "fl_round q = Fin (fl q) \<and> approx (Suc 0) (fl q) q \<and> 0 < fl q"
    if "in_range 2 q" for q :: real
    using round_step [OF approx_refl that] by simp
  have one: "approx 1 1 (1::real)"
    by (rule approx_weaken [OF approx_refl]) simp_all
  consider "l \<le> 14" | "14 < l" "l \<le> 30" | "30 < l" "l \<le> 60" | "60 < l" by linarith
  then show ?thesis
  proof cases
    case 1
    then show ?thesis
      using one by (intro exI [of _ 1]) (simp add: lifespan_penalty_spec_def in_range_def)
  next
    case 2
    have i: "in_range 2 (8 / 10 :: real)" by (simp add: in_range_def)
    from 2 r [OF i] i show ?thesis
      by (intro exI [of _ "fl (8 / 10)"]) (simp add: lifespan_penalty_spec_def)
  next
    case 3
    have i: "in_range 2 (5 / 10 :: real)" by (simp add: in_range_def)
    from 3 r [OF i] i show ?thesis
      by (intro exI [of _ "fl (5 / 10)"]) (simp add: lifespan_penalty_spec_def)
  next
    case 4
    have i: "in_range 2 (3 / 10 :: real)" by (simp add: in_range_def)
    from 4 r [OF i] i show ?thesis
      by (intro exI [of _ "fl (3 / 10)"]) (simp add: lifespan_penalty_spec_def)
  qed
qed


lemma fl_round_eq:
  assumes "fl x = y" and "\<bar>y\<bar> < 2 ^ 1024"
  shows "fl_round x = Fin y"
  using assms fl_round_Fin [of x] by simp


lemma fl_3_10: "fl (3 / 10) = 5404319552844595 / 2 ^ 54"
  using fl_at [of "- 54" "3 / 10"] by (simp add: powr_neg_numeral rhe_def)

lemma fl_6_10: "fl (6 / 10) = 5404319552844595 / 2 ^ 53"
  using fl_at [of "- 53" "6 / 10"] by (simp add: powr_neg_numeral rhe_def)

lemma burst_single:
  "calculate_burst_score math_log5 1 1 p 1 = Inr (Fin (fl (3 / 10)))"
proof -
  let ?c = "5404319552844595 / 2 ^ 54 :: real"
  have w: "fl_round (3 / 10) = Fin ?c"
    by (rule fl_round_eq [OF fl_3_10]) simp
  have one: "fl_round 1 = Fin 1"
    using fl_round_of_int [of 1] by simp
  have "fl ?c = ?c"
    using fl_repr [of 5404319552844595 "- 54"] by (simp add: powr_neg_numeral)
  then have c: "fl_round ?c = Fin ?c"
    by (rule fl_round_eq) simp
  have "rhe (?c * 100) = 30" by (simp add: rhe_def)
  then have r: "fround2 (Fin ?c) = Fin ?c"
    using w by simp
  have "calculate_burst_score math_log5 1 1 p 1 = Inr (Fin ?c)"
    using w one c r
    by (simp add: calculate_burst_score_def int_truediv_def float_of_int_def
        del: fround2.simps)
  then show ?thesis by (simp only: fl_3_10)
qed

lemma burst_two_days:
  "calculate_burst_score math_log5 2 2 p 2 = Inr (Fin (fl (6 / 5)))"
proof -
  let ?c = "5404319552844595 :: real"
  have w: "fl_round (6 / 10) = Fin (?c / 2 ^ 53)"
    by (rule fl_round_eq [OF fl_6_10]) simp
  have two: "fl_round 2 = Fin 2" using fl_round_of_int [of 2] by simp
  have one: "fl_round 1 = Fin 1" using fl_round_of_int [of 1] by simp
  have f52: "fl (?c / 2 ^ 52) = ?c / 2 ^ 52"
    using fl_repr [of 5404319552844595 "- 52"] by (simp add: powr_neg_numeral)
  then have x: "fl_round (?c / 2 ^ 52) = Fin (?c / 2 ^ 52)"
    by (rule fl_round_eq) simp
  have e2: "2 * (?c / 2 ^ 53) = ?c / 2 ^ 52" by simp
  have e5: "?c / 2 ^ 52 * 1 = ?c / 2 ^ 52" by simp
  have prod: "fmul (fmul (fmul (Fin 2) (Fin (?c / 2 ^ 53))) (Fin 1)) (Fin 1) = Fin (?c / 2 ^ 52)"
    by (simp only: fmul.simps e2 x e5)
  have k: "rhe (?c / 2 ^ 52 * 100) = 120" by (simp add: rhe_def)
  have "fl (6 / 5) = ?c / 2 ^ 52"
    using fl_at [of "- 52" "6 / 5"] by (simp add: powr_neg_numeral rhe_def)
  then have v: "fl_round (6 / 5) = Fin (fl (6 / 5))"
    by (intro fl_round_eq) simp_all
  have r: "fround2 (Fin (?c / 2 ^ 52)) = Fin (fl (6 / 5))"
    using k v by simp
  have "calculate_burst_score math_log5 2 2 p 2 =
      Inr (fround2 (fmul (fmul (fmul (Fin 2) (Fin (?c / 2 ^ 53))) (Fin 1)) (Fin 1)))"
    using w two one
    by (simp add: calculate_burst_score_def int_truediv_def float_of_int_def
        del: fround2.simps fmul.simps)
  then show ?thesis by (simp only: prod r)
qed






text \<open>
  No burst score of a keyword with \<open>1 \<le> days_on_list \<le> total_appearances\<close> is a
  NaN, as long as \<open>math.log\<close> does not return one.
\<close>

lemma fl_round_not_nan: "fl_round x \<noteq> NaN"
  by (simp add: fl_round_def Let_def)

lemma fl_round_FinD: "fl_round x = Fin y \<Longrightarrow> y = fl x"
  by (auto simp: fl_round_def Let_def split: if_splits)

lemma fl_pos:
  assumes "1 \<le> x"
  shows "0 < fl x"
proof -
  have "(2::real) powr (- 1022) = 1 / 2 ^ 1022" by (simp add: powr_neg_numeral)
  also have "\<dots> \<le> 1" by simp
  finally have "(2::real) powr (- 1022) \<le> \<bar>x\<bar>" using assms by linarith
  from fl_rel [OF this] assms have "\<bar>fl x - x\<bar> \<le> x / 2 ^ 53" by simp
  then have "x - x / 2 ^ 53 \<le> fl x" by linarith
  with assms show ?thesis by simp
qed

lemma fmul_pos_not_nan: "0 < a \<Longrightarrow> w \<noteq> NaN \<Longrightarrow> fmul (Fin a) w \<noteq> NaN"
  by (cases w) (simp_all add: fl_round_not_nan)

lemma fmul_not_nan_pos: "x \<noteq> NaN \<Longrightarrow> 0 < c \<Longrightarrow> fmul x (Fin c) \<noteq> NaN"
  by (cases x) (simp_all add: fl_round_not_nan)

lemma fround2_not_nan: "x \<noteq> NaN \<Longrightarrow> fround2 x \<noteq> NaN"
  by (cases x) (simp_all add: fl_round_not_nan)

lemma fdiv_one_not_nan: "y \<noteq> NaN \<Longrightarrow> fdiv (Fin 1) y \<noteq> Inr NaN"
  by (cases y) (simp_all add: fl_round_not_nan)

lemma burst_not_nan:
  assumes "1 \<le> d" and "d \<le> t" and "math_log5 d \<noteq> NaN"
  shows "calculate_burst_score math_log5 t d p l \<noteq> Inr NaN"
proof -
  let ?W = "if d = 1 then Inr (fl_round (3 / 10))
            else if d = 2 then Inr (fl_round (6 / 10))
            else if d \<le> 10 then Inr (Fin 1)
            else fdiv (Fin 1) (math_log5 d)"
  let ?L = "if l \<le> 14 then Fin 1
            else if l \<le> 30 then fl_round (8 / 10)
            else if l \<le> 60 then fl_round (5 / 10)
            else fl_round (3 / 10)"
  have d0: "d \<noteq> 0" using assms(1) by simp
  have q: "1 \<le> real_of_int t / real_of_int d" using assms(1,2) by simp
  have t1: "(1::real) \<le> real_of_int t" using assms(1,2) by simp
  from penalty_float [of l] obtain v where
    v: "?L = Fin v" and av: "approx 1 v (lifespan_penalty_spec l)"
    and rv: "in_range 2 (lifespan_penalty_spec l)"
    by (elim exE conjE)
  have vpos: "0 < v" using approx_pos [OF av in_range_pos [OF rv]] .
  show ?thesis
  proof (cases ?W)
    case (Inl e)
    then show ?thesis unfolding calculate_burst_score_def using d0 by simp
  next
    case w: (Inr w)
    have wn: "w \<noteq> NaN"
      using w assms(3) fdiv_one_not_nan [of "math_log5 d"] fl_round_not_nan
      by (auto split: if_splits)
    show ?thesis
    proof (cases "int_truediv t d")
      case (Inl e)
      then show ?thesis unfolding calculate_burst_score_def using d0 w by simp
    next
      case c: (Inr c)
      then obtain y where y: "c = Fin y" "Fin y = fl_round (real_of_int t / real_of_int d)"
        unfolding int_truediv_def using d0 by (auto split: pyfloat.splits)
      have ypos: "0 < y" using fl_round_FinD [OF y(2) [symmetric]] fl_pos [OF q] by simp
      show ?thesis
      proof (cases "float_of_int t")
        case (Inl e)
        then show ?thesis unfolding calculate_burst_score_def using d0 w c by simp
      next
        case b: (Inr b)
        then obtain z where z: "b = Fin z" "Fin z = fl_round (real_of_int t)"
          unfolding float_of_int_def by (auto split: pyfloat.splits)
        have zpos: "0 < z" using fl_round_FinD [OF z(2) [symmetric]] fl_pos [OF t1] by simp
        have "calculate_burst_score math_log5 t d p l
            = Inr (fround2 (fmul (fmul (fmul (Fin z) w) (Fin y)) (Fin v)))"
          unfolding calculate_burst_score_def Let_def v
          using d0 w c b y(1) z(1) by (simp del: fmul.simps fround2.simps)
        moreover have "fround2 (fmul (fmul (fmul (Fin z) w) (Fin y)) (Fin v)) \<noteq> NaN"
          by (intro fround2_not_nan fmul_not_nan_pos fmul_pos_not_nan zpos ypos vpos wn)
        ultimately show ?thesis by simp
      qed
    qed
  qed
qed


section \<open>Properties of the lifecycle segmentation\<close>

lemma build_points_enumerate:
  assumes "\<forall>d\<in>set ds. (\<exists>h. map_of daily d = Some h) \<and> (\<exists>t. parse d = Some t)"
  shows "\<exists>pts. build_points parse daily n md (enumerate k ds) = Inr pts
           \<and> length pts = length ds
           \<and> (\<forall>i<length ds. lp_phase (pts ! i) = phase_of n (k + i) (ds ! i) md
                 \<and> parse (ds ! i) = Some (lp_timestamp (pts ! i))
                 \<and> map_of daily (ds ! i) = Some (lp_heat_score (pts ! i)))"
  using assms
proof (induction ds arbitrary: k)
  case Nil
  then show ?case by simp
next
  case (Cons d ds)
  from Cons.prems obtain h t where h: "map_of daily d = Some h" and t: "parse d = Some t"
    by auto
  from Cons.prems have "\<forall>d\<in>set ds. (\<exists>h. map_of daily d = Some h) \<and> (\<exists>t. parse d = Some t)"
    by simp
  from Cons.IH [OF this, of "Suc k"] obtain pts where
    p: "build_points parse daily n md (enumerate (Suc k) ds) = Inr pts"
    and l: "length pts = length ds"
    and a: "\<forall>i<length ds. lp_phase (pts ! i) = phase_of n (Suc k + i) (ds ! i) md
                 \<and> parse (ds ! i) = Some (lp_timestamp (pts ! i))
                 \<and> map_of daily (ds ! i) = Some (lp_heat_score (pts ! i))"
    by blast
  let ?p = "\<lparr>lp_timestamp = t, lp_heat_score = h, lp_phase = phase_of n k d md\<rparr>"
  have "build_points parse daily n md (enumerate k (d # ds)) = Inr (?p # pts)"
    using h t p by simp
  moreover have "length (?p # pts) = length (d # ds)" using l by simp
  moreover have "\<forall>i<length (d # ds). lp_phase ((?p # pts) ! i) = phase_of n (k + i) ((d # ds) ! i) md
                 \<and> parse ((d # ds) ! i) = Some (lp_timestamp ((?p # pts) ! i))
                 \<and> map_of daily ((d # ds) ! i) = Some (lp_heat_score ((?p # pts) ! i))"
  proof (intro allI impI)
    fix i assume "i < length (d # ds)"
    then show "lp_phase ((?p # pts) ! i) = phase_of n (k + i) ((d # ds) ! i) md
                 \<and> parse ((d # ds) ! i) = Some (lp_timestamp ((?p # pts) ! i))
                 \<and> map_of daily ((d # ds) ! i) = Some (lp_heat_score ((?p # pts) ! i))"
      using a h t by (cases i) simp_all
  qed
  ultimately show ?case by blast
qed

lemma first_match_least:
  assumes "sorted_wrt (<) (map fst xs)" and "filter P xs = y # ys" and "z \<in> set xs" and "P z"
  shows "fst y \<le> fst (z :: 'd::linorder \<times> 'h)"
proof -
  have "sorted_wrt (\<lambda>a b. fst a < fst b) xs"
    using assms(1) by (simp add: sorted_wrt_map)
  then have "sorted_wrt (\<lambda>a b. fst a < fst b) (filter P xs)"
    by (rule sorted_wrt_filter)
  then have "\<forall>w\<in>set ys. fst y < fst w"
    using assms(2) by simp
  moreover have "z \<in> set (y # ys)"
  proof -
    have "z \<in> set (filter P xs)" using assms(3,4) by simp
    then show ?thesis by (simp only: assms(2))
  qed
  ultimately show ?thesis by auto
qed

lemma py_max_Max:
  assumes "xs \<noteq> []"
  shows "py_max xs = Inr (Max (set xs))"
proof (cases xs)
  case Nil
  then show ?thesis using assms by simp
next
  case (Cons a list)
  have "Max (set (a # list)) = fold max list a" by (rule Max.set_eq_fold)
  then show ?thesis using Cons by simp
qed

lemma phase_of_exact:
  "phase_of n i d pk = phase_rule n i d pk"
proof -
  have a: "real i < real n * (2 / 10) \<longleftrightarrow> 5 * i < n"
  proof -
    have "real i < real n * (2 / 10) \<longleftrightarrow> real (5 * i) < real n" by (simp add: field_simps)
    then show ?thesis by (simp only: of_nat_less_iff)
  qed
  have b: "real n * (8 / 10) < real i \<longleftrightarrow> 4 * n < 5 * i"
  proof -
    have "real n * (8 / 10) < real i \<longleftrightarrow> real (4 * n) < real (5 * i)" by (simp add: field_simps)
    then show ?thesis by (simp only: of_nat_less_iff)
  qed
  show ?thesis unfolding phase_of_def phase_rule_def a b by simp
qed

lemma segment_sorted:
  fixes daily :: "('d::linorder \<times> real) list"
  assumes ne: "daily \<noteq> []"
    and srt: "sorted_wrt (<) (map fst daily)"
    and prs: "list_all (\<lambda>d. parse d \<noteq> None) (map fst daily)"
  shows "\<exists>r pk h. segment parse kw daily = Inr r
      \<and> (pk, h) \<in> set daily
      \<and> list_all (\<lambda>(d', h'). h' \<le> h \<and> (h' < h \<or> pk \<le> d')) daily
      \<and> parse pk = Some (ld_peak_date r)
      \<and> parse (fst (hd daily)) = Some (ld_birth_date r)
      \<and> ld_death_date r = (if 1 < length daily then parse (fst (last daily)) else None)
      \<and> ld_total_days r = length daily
      \<and> length (ld_data_points r) = length daily
      \<and> (\<forall>i<length daily.
            lp_phase (ld_data_points r ! i) = phase_rule (length daily) i (fst (daily ! i)) pk
          \<and> parse (fst (daily ! i)) = Some (lp_timestamp (ld_data_points r ! i))
          \<and> lp_heat_score (ld_data_points r ! i) = snd (daily ! i))"
proof -
  let ?ds = "map fst daily"
  define mx where "mx = Max (set (map snd daily))"
  have srt': "sorted ?ds" and dist: "distinct ?ds"
    using srt strict_sorted_iff by blast+
  have sd: "sort ?ds = ?ds" using srt' by (simp add: sorted_sort_id)
  have pm: "py_max (map snd daily) = Inr mx"
    using ne by (simp add: py_max_Max mx_def)
  have "mx \<in> set (map snd daily)"
    unfolding mx_def using ne by (intro Max_in) simp_all
  then obtain d0 where d0: "(d0, mx) \<in> set daily" by auto
  then have "filter (\<lambda>(d, h). h = mx) daily \<noteq> []"
    by (auto simp: filter_empty_conv)
  then obtain pk h0 rest where f: "filter (\<lambda>(d, h). h = mx) daily = (pk, h0) # rest"
    by (cases "filter (\<lambda>(d, h). h = mx) daily") auto
  have "(pk, h0) \<in> set (filter (\<lambda>(d, h). h = mx) daily)" using f by simp
  then have pkin: "(pk, mx) \<in> set daily" by auto
  have le: "\<And>d' h'. (d', h') \<in> set daily \<Longrightarrow> h' \<le> mx"
    unfolding mx_def by (intro Max_ge) force+
  have least: "\<And>d' h'. (d', h') \<in> set daily \<Longrightarrow> h' = mx \<Longrightarrow> pk \<le> d'"
    using first_match_least [OF srt f] by fastforce
  have cond: "\<forall>d\<in>set ?ds. (\<exists>h. map_of daily d = Some h) \<and> (\<exists>t. parse d = Some t)"
  proof
    fix d assume d: "d \<in> set ?ds"
    then have "map_of daily d \<noteq> None" by (simp add: map_of_eq_None_iff)
    moreover have "parse d \<noteq> None" using prs d unfolding list_all_iff by blast
    ultimately show "(\<exists>h. map_of daily d = Some h) \<and> (\<exists>t. parse d = Some t)" by auto
  qed
  from build_points_enumerate [OF cond, of "length ?ds" pk 0] obtain pts where
    bp: "build_points parse daily (length ?ds) pk (enumerate 0 ?ds) = Inr pts"
    and len: "length pts = length ?ds"
    and pt: "\<forall>i<length ?ds. lp_phase (pts ! i) = phase_of (length ?ds) (0 + i) (?ds ! i) pk
                 \<and> parse (?ds ! i) = Some (lp_timestamp (pts ! i))
                 \<and> map_of daily (?ds ! i) = Some (lp_heat_score (pts ! i))"
    by blast
  have nds: "?ds \<noteq> []" using ne by simp
  have hdin: "hd ?ds \<in> set ?ds" and lastin: "last ?ds \<in> set ?ds"
    using nds by (rule hd_in_set, rule last_in_set)
  have pkin': "pk \<in> set ?ds"
    using pkin by force
  obtain b p l where b: "parse (hd ?ds) = Some b" and p: "parse pk = Some p"
    and l: "parse (last ?ds) = Some l"
    using cond hdin lastin pkin' by blast
  let ?r = "\<lparr>ld_keyword = kw, ld_data_points = pts, ld_birth_date = b, ld_peak_date = p,
             ld_death_date = (if 1 < length ?ds then Some l else None),
             ld_total_days = length ?ds\<rparr>"
  have seg: "segment parse kw daily = Inr ?r"
    unfolding segment_def Let_def sd using pm f bp b p l by simp
  have all: "list_all (\<lambda>(d', h'). h' \<le> mx \<and> (h' < mx \<or> pk \<le> d')) daily"
    unfolding list_all_iff using le least by fastforce
  have pts: "\<forall>i<length daily.
            lp_phase (pts ! i) = phase_rule (length daily) i (fst (daily ! i)) pk
          \<and> parse (fst (daily ! i)) = Some (lp_timestamp (pts ! i))
          \<and> lp_heat_score (pts ! i) = snd (daily ! i)"
  proof (intro allI impI)
    fix i assume i: "i < length daily"
    have "map_of daily (fst (daily ! i)) = Some (snd (daily ! i))"
      using dist i by (simp add: map_of_eq_Some_iff)
    then show "lp_phase (pts ! i) = phase_rule (length daily) i (fst (daily ! i)) pk
          \<and> parse (fst (daily ! i)) = Some (lp_timestamp (pts ! i))
          \<and> lp_heat_score (pts ! i) = snd (daily ! i)"
      using pt i by (simp add: phase_of_exact)
  qed
  have hd_eq: "hd ?ds = fst (hd daily)" and last_eq: "last ?ds = fst (last daily)"
    using ne by (simp_all add: hd_map last_map)
  show ?thesis
    apply (rule exI [of _ ?r], rule exI [of _ pk], rule exI [of _ mx])
    using seg pkin all p b l len pts hd_eq last_eq by simp
qed


lemma filter_at_most_one:
  assumes "\<And>m n. m < length ps \<and> n < length ps \<and> Q (ps ! m) \<and> Q (ps ! n) \<Longrightarrow> m = n"
  shows "length (filter Q ps) \<le> 1"
  using assms
proof (induction ps)
  case Nil
  then show ?case by simp
next
  case (Cons p ps)
  have ih: "length (filter Q ps) \<le> 1"
  proof (rule Cons.IH)
    fix m n assume "m < length ps \<and> n < length ps \<and> Q (ps ! m) \<and> Q (ps ! n)"
    then have "Suc m = Suc n"
      using Cons.prems [of "Suc m" "Suc n"] by simp
    then show "m = n" by simp
  qed
  show ?case
  proof (cases "Q p")
    case True
    have "filter Q ps = []"
    proof (rule ccontr)
      assume "filter Q ps \<noteq> []"
      then obtain y where "y \<in> set ps" "Q y"
        by (auto simp: filter_empty_conv)
      then obtain n where "n < length ps" "Q (ps ! n)"
        by (auto simp: in_set_conv_nth)
      then have "0 = Suc n"
        using Cons.prems [of 0 "Suc n"] True by simp
      then show False by simp
    qed
    then show ?thesis using True by simp
  next
    case False
    then show ?thesis using ih by simp
  qed
qed

lemma ten_phases:
  fixes ds :: "'d::linorder list"
  assumes len: "length ds = 10" and srt: "sorted_wrt (<) ds" and i: "i < 10"
  shows "phase_rule 10 i (ds ! i) (ds ! 3) = ten_expected i"
proof -
  have mono: "\<And>a b. a < b \<Longrightarrow> b < 10 \<Longrightarrow> ds ! a < ds ! b"
    using srt len by (simp add: sorted_wrt_iff_nth_less)
  have before: "i < 3 \<Longrightarrow> ds ! i < ds ! 3"
    using mono [of i 3] by simp
  have "3 < i \<Longrightarrow> ds ! 3 < ds ! i"
    using mono [of 3 i] i by simp
  then have after: "3 < i \<Longrightarrow> \<not> ds ! i < ds ! 3 \<and> ds ! i \<noteq> ds ! 3"
    by fastforce
  consider (early) "i < 2" | (two) "i = 2" | (three) "i = 3" | (late) "3 < i"
    by linarith
  then show ?thesis
  proof cases
    case early
    then show ?thesis by (simp add: phase_rule_def ten_expected_def)
  next
    case two
    then show ?thesis using before by (simp add: phase_rule_def ten_expected_def)
  next
    case three
    then show ?thesis by (simp add: phase_rule_def ten_expected_def)
  next
    case late
    then show ?thesis using after i by (auto simp: phase_rule_def ten_expected_def)
  qed
qed

lemma ten_expected_list:
  "map ten_expected [0..<10] =
     [birth, birth, rise, peak, decline, decline, decline, decline, decline, death]"
  by code_simp

text \<open>
  C4 (amended): for a non-empty series of daily heat points in strictly ascending date
  order whose dates all parse, segmentation returns a result; \<open>pk\<close> is the date of
  maximum heat, the earliest one on ties; and the phase at index \<open>i\<close> with date
  \<open>d\<close> is decided in this order: \<open>i < 0.2 N\<close> (that is \<open>5 i < N\<close>, not
  \<open>i < floor(0.2 N)\<close>) gives birth, \<open>d < pk\<close> rise, \<open>d = pk\<close> peak,
  \<open>i > 0.8 N\<close> death, otherwise decline. For \<open>N = 10\<close> with the maximum at index 3
  the phases are birth, birth, rise, peak, five times decline, death.
\<close>

theorem C4_phase_order:
  fixes daily :: "('d::linorder \<times> real) list"
  assumes "daily \<noteq> []"
    and "sorted_wrt (<) (map fst daily)"
    and "list_all (\<lambda>d. fromisoformat d \<noteq> None) (map fst daily)"
  shows "\<exists>r pk h. segment fromisoformat kw daily = Inr r
      \<and> (pk, h) \<in> set daily
      \<and> list_all (\<lambda>(d', h'). h' \<le> h \<and> (h' < h \<or> pk \<le> d')) daily
      \<and> fromisoformat pk = Some (ld_peak_date r)
      \<and> length (ld_data_points r) = length daily
      \<and> (\<forall>i<length daily.
            lp_phase (ld_data_points r ! i) =
              (if 5 * i < length daily then birth
               else if fst (daily ! i) < pk then rise
               else if fst (daily ! i) = pk then peak
               else if 4 * length daily < 5 * i then death
               else decline))
      \<and> (length daily = 10 \<and> pk = fst (daily ! 3) \<longrightarrow>
            map lp_phase (ld_data_points r) =
              [birth, birth, rise, peak, decline, decline, decline, decline, decline, death])"
proof -
  from segment_sorted [OF assms, of kw] obtain r pk h where
    seg: "segment fromisoformat kw daily = Inr r"
    and pk: "(pk, h) \<in> set daily"
      "list_all (\<lambda>(d', h'). h' \<le> h \<and> (h' < h \<or> pk \<le> d')) daily"
      "fromisoformat pk = Some (ld_peak_date r)"
    and len: "length (ld_data_points r) = length daily"
    and pts: "\<forall>i<length daily.
            lp_phase (ld_data_points r ! i) = phase_rule (length daily) i (fst (daily ! i)) pk"
    by blast
  have ten: "map lp_phase (ld_data_points r) =
              [birth, birth, rise, peak, decline, decline, decline, decline, decline, death]"
    if l10: "length daily = 10" and p3: "pk = fst (daily ! 3)"
  proof -
    have "map lp_phase (ld_data_points r) = map ten_expected [0..<10]"
    proof (rule nth_equalityI)
      show "length (map lp_phase (ld_data_points r)) = length (map ten_expected [0..<10])"
        using len l10 by simp
    next
      fix n assume "n < length (map lp_phase (ld_data_points r))"
      then have n: "n < 10" using len l10 by simp
      have "lp_phase (ld_data_points r ! n) =
          phase_rule 10 n (map fst daily ! n) (map fst daily ! 3)"
        using pts n l10 p3 by simp
      also have "\<dots> = ten_expected n"
        using ten_phases [of "map fst daily" n] assms(2) l10 n by simp
      finally show "map lp_phase (ld_data_points r) ! n = map ten_expected [0..<10] ! n"
        using n len l10 by simp
    qed
    then show ?thesis by (simp only: ten_expected_list)
  qed
  show ?thesis
    apply (rule exI [of _ r], rule exI [of _ pk], rule exI [of _ h])
    using seg pk len pts ten by (simp add: phase_rule_def)
qed

lemma ten_days_segment:
  "phases (segment Some (str ''k'') ten_days) =
     Inr [birth, birth, rise, peak, decline, decline, decline, decline, decline, death]"
  by (simp add: phases_def segment_def ten_days_def str_def phase_of_def)

theorem C4_phase_order_witness:
  "ten_days \<noteq> []
   \<and> sorted_wrt (<) (map fst ten_days)
   \<and> list_all (\<lambda>d. Some d \<noteq> None) (map fst ten_days)
   \<and> length ten_days = 10
   \<and> phases (segment Some (str ''k'') ten_days) =
       Inr [birth, birth, rise, peak, decline, decline, decline, decline, decline, death]"
proof -
  have h1: "ten_days \<noteq> []" by (simp add: ten_days_def)
  have h2: "sorted_wrt (<) (map fst ten_days)" by (simp add: ten_days_def str_def)
  have h3: "list_all (\<lambda>d. Some d \<noteq> None) (map fst ten_days)" by (simp add: ten_days_def)
  have h4: "length ten_days = 10" by (simp add: ten_days_def)
  from C4_phase_order [OF h1 h2 h3, of "str ''k''"] obtain r where
    "segment Some (str ''k'') ten_days = Inr r" by blast
  then show ?thesis using h1 h2 h3 h4 ten_days_segment by simp
qed

text \<open>
  C4 as stated fails for a single point: the code labels it birth (\<open>0 < 0.2\<close>), the
  rule with \<open>floor(0.2 N) = 0\<close> labels it peak.
\<close>

theorem C4_counterexample:
  "phases (segment Some (str ''k'') [(str ''2024-03-01'', 7)]) = Inr [birth]
   \<and> phase_spec 1 0 (str ''2024-03-01'') (str ''2024-03-01'') = peak"
  by (simp add: phases_def segment_def str_def phase_of_def phase_spec_def)

text \<open>
  C5 (amended): for a non-empty series of daily heat points with strictly ascending
  dates that all parse, the lifecycle points carry the input dates and heats in the same
  order and number; at most one point has the phase peak, and the point at index \<open>i\<close>
  is the peak exactly when its date is the earliest date of maximum heat and
  \<open>i \<ge> 0.2 N\<close> (otherwise that day is labelled birth and no point is the peak);
  \<open>death_date\<close> is reported exactly when \<open>N > 1\<close>.
\<close>

theorem C5_partition:
  fixes daily :: "('d::linorder \<times> real) list"
  assumes "daily \<noteq> []"
    and "sorted_wrt (<) (map fst daily)"
    and "list_all (\<lambda>d. fromisoformat d \<noteq> None) (map fst daily)"
  shows "\<exists>r pk h. segment fromisoformat kw daily = Inr r
      \<and> (pk, h) \<in> set daily
      \<and> list_all (\<lambda>(d', h'). h' \<le> h \<and> (h' < h \<or> pk \<le> d')) daily
      \<and> map (\<lambda>p. Some (lp_timestamp p)) (ld_data_points r) = map (\<lambda>(d, h). fromisoformat d) daily
      \<and> map lp_heat_score (ld_data_points r) = map snd daily
      \<and> length (filter (\<lambda>p. lp_phase p = peak) (ld_data_points r)) \<le> 1
      \<and> (\<forall>i<length daily.
            lp_phase (ld_data_points r ! i) = peak
              \<longleftrightarrow> fst (daily ! i) = pk \<and> length daily \<le> 5 * i)
      \<and> (ld_death_date r \<noteq> None \<longleftrightarrow> 1 < length daily)"
proof -
  from segment_sorted [OF assms, of kw] obtain r pk h where
    seg: "segment fromisoformat kw daily = Inr r"
    and pk: "(pk, h) \<in> set daily"
      "list_all (\<lambda>(d', h'). h' \<le> h \<and> (h' < h \<or> pk \<le> d')) daily"
    and dd: "ld_death_date r = (if 1 < length daily then fromisoformat (fst (last daily)) else None)"
    and len: "length (ld_data_points r) = length daily"
    and pts: "\<forall>i<length daily.
            lp_phase (ld_data_points r ! i) = phase_rule (length daily) i (fst (daily ! i)) pk
          \<and> fromisoformat (fst (daily ! i)) = Some (lp_timestamp (ld_data_points r ! i))
          \<and> lp_heat_score (ld_data_points r ! i) = snd (daily ! i)"
    by blast
  have ts: "map (\<lambda>p. Some (lp_timestamp p)) (ld_data_points r) = map (\<lambda>(d, h). fromisoformat d) daily"
    using len pts by (intro nth_equalityI) (simp_all add: case_prod_beta)
  have hs: "map lp_heat_score (ld_data_points r) = map snd daily"
    using len pts by (intro nth_equalityI) simp_all
  have pkiff: "\<forall>i<length daily.
            lp_phase (ld_data_points r ! i) = peak
              \<longleftrightarrow> fst (daily ! i) = pk \<and> length daily \<le> 5 * i"
    using pts by (auto simp: phase_rule_def)
  have dist: "distinct (map fst daily)"
    using assms(2) strict_sorted_iff by blast
  have one: "length (filter (\<lambda>p. lp_phase p = peak) (ld_data_points r)) \<le> 1"
  proof (rule filter_at_most_one)
    fix i j
    assume "i < length (ld_data_points r) \<and> j < length (ld_data_points r)
      \<and> lp_phase (ld_data_points r ! i) = peak \<and> lp_phase (ld_data_points r ! j) = peak"
    then have i: "i < length (ld_data_points r)" and j: "j < length (ld_data_points r)"
      and "lp_phase (ld_data_points r ! i) = peak" "lp_phase (ld_data_points r ! j) = peak"
      by simp_all
    then have "fst (daily ! i) = pk" "fst (daily ! j) = pk"
      using pkiff len by simp_all
    then have "map fst daily ! i = map fst daily ! j"
      using i j len by simp
    moreover have "i < length (map fst daily)" "j < length (map fst daily)"
      using i j len by simp_all
    ultimately show "i = j"
      using dist nth_eq_iff_index_eq by blast
  qed
  have last_in: "fst (last daily) \<in> set (map fst daily)"
    using assms(1) by simp
  then have "fromisoformat (fst (last daily)) \<noteq> None"
    using assms(3) unfolding list_all_iff by blast
  then have death: "ld_death_date r \<noteq> None \<longleftrightarrow> 1 < length daily"
    using dd by simp
  show ?thesis
    apply (rule exI [of _ r], rule exI [of _ pk], rule exI [of _ h])
    using seg pk ts hs one pkiff death by simp
qed

lemma five_days_segment:
  "phases (segment Some (str ''k'') five_days) = Inr [birth, decline, decline, decline, decline]"
  by (simp add: phases_def segment_def five_days_def str_def phase_of_def)

theorem C5_partition_witness:
  "five_days \<noteq> []
   \<and> sorted_wrt (<) (map fst five_days)
   \<and> list_all (\<lambda>d. Some d \<noteq> None) (map fst five_days)
   \<and> phases (segment Some (str ''k'') five_days) = Inr [birth, decline, decline, decline, decline]"
proof -
  have h1: "five_days \<noteq> []" by (simp add: five_days_def)
  have h2: "sorted_wrt (<) (map fst five_days)" by (simp add: five_days_def str_def)
  have h3: "list_all (\<lambda>d. Some d \<noteq> None) (map fst five_days)" by (simp add: five_days_def)
  from C5_partition [OF h1 h2 h3, of "str ''k''"] obtain r where
    "segment Some (str ''k'') five_days = Inr r" by blast
  then show ?thesis using h1 h2 h3 five_days_segment by simp
qed

text \<open>
  C5 as stated fails when the maximum falls into the birth range: five ascending days
  with the maximum on the first day have no peak point at all.
\<close>

theorem C5_counterexample:
  "phases (segment Some (str ''k'')
      [(str ''2024-03-01'', 90), (str ''2024-03-02'', 40), (str ''2024-03-03'', 30),
       (str ''2024-03-04'', 20), (str ''2024-03-05'', 10)])
   = Inr [birth, decline, decline, decline, decline]"
  by (simp add: phases_def segment_def str_def phase_of_def)


section \<open>Properties of normalisation and merging\<close>

lemma km_update_keys:
  "map fst (km_update k fresh f km) = (if k \<in> set (map fst km) then map fst km else map fst km @ [k])"
proof (induction km)
  case Nil
  then show ?case by simp
next
  case (Cons ke km)
  obtain k' e where ke: "ke = (k', e)" by (cases ke)
  show ?case
  proof (cases "k' = k")
    case True
    then show ?thesis using ke by simp
  next
    case False
    then show ?thesis using ke Cons.IH by simp
  qed
qed

lemma merge_items_keys:
  "map fst (foldl (merge_item normalise platform) km items) =
     foldl (\<lambda>acc k. if k \<in> set acc then acc else acc @ [k]) (map fst km)
       (map (\<lambda>item. normalise (ri_keyword item)) items)"
proof (induction items arbitrary: km)
  case Nil
  then show ?case by simp
next
  case (Cons it items)
  have "map fst (merge_item normalise platform km it) =
      (if normalise (ri_keyword it) \<in> set (map fst km) then map fst km
       else map fst km @ [normalise (ri_keyword it)])"
    unfolding merge_item_def by (rule km_update_keys)
  then show ?case using Cons.IH [of "merge_item normalise platform km it"] by simp
qed

lemma merge_platforms_keys:
  "map fst (foldl (merge_platform normalise) km all_data) =
     foldl (\<lambda>acc k. if k \<in> set acc then acc else acc @ [k]) (map fst km)
       (normalized_keys normalise all_data)"
proof (induction all_data arbitrary: km)
  case Nil
  then show ?case by (simp add: normalized_keys_def)
next
  case (Cons pl all_data)
  have "map fst (merge_platform normalise km pl) =
      foldl (\<lambda>acc k. if k \<in> set acc then acc else acc @ [k]) (map fst km)
        (map (\<lambda>item. normalise (ri_keyword item)) (snd pl))"
    unfolding merge_platform_def by (rule merge_items_keys)
  then show ?case
    using Cons.IH [of "merge_platform normalise km pl"] by (simp add: normalized_keys_def)
qed

lemma keyword_map_keys:
  "map fst (build_keyword_map normalise all_data) =
     first_occurrences (normalized_keys normalise all_data)"
  unfolding build_keyword_map_def first_occurrences_def
  using merge_platforms_keys [of normalise "[]" all_data] by simp

lemma first_occurrences_step:
  "distinct acc \<Longrightarrow>
     distinct (foldl (\<lambda>acc k. if k \<in> set acc then acc else acc @ [k]) acc ks)
   \<and> set (foldl (\<lambda>acc k. if k \<in> set acc then acc else acc @ [k]) acc ks) = set acc \<union> set ks"
  by (induction ks arbitrary: acc) auto

lemma first_occurrences_distinct:
  "distinct (first_occurrences ks) \<and> set (first_occurrences ks) = set ks"
  unfolding first_occurrences_def using first_occurrences_step [of "[]" ks] by simp

lemma sort_desc_sorted:
  "sorted_wrt (\<lambda>a b. key b \<le> key a) (sort_desc key xs)"
proof -
  have "sorted (map (\<lambda>x. - key x) (sort_key (\<lambda>x. - key x) xs))"
    by (rule sorted_sort_key)
  then show ?thesis
    unfolding sort_desc_def by (simp add: sorted_map)
qed

lemma sort_desc_stable:
  "filter (\<lambda>x. key x = h) (sort_desc key xs) = filter (\<lambda>x. key x = h) xs"
proof -
  have "filter (\<lambda>y. - key y = - h) (sort_key (\<lambda>x. - key x) xs) = filter (\<lambda>y. - key y = - h) xs"
    by (rule sort_key_stable)
  then show ?thesis unfolding sort_desc_def by simp
qed

lemma sort_desc_set: "set (sort_desc key xs) = set xs"
  unfolding sort_desc_def by simp

lemma km_update_all:
  assumes "list_all (\<lambda>(k, e). P e) km" and "P (f fresh)" and "\<And>e. P e \<Longrightarrow> P (f e)"
  shows "list_all (\<lambda>(k, e). P e) (km_update k' fresh f km)"
  using assms by (induction km) auto

lemma record_item_platforms:
  "distinct (en_platforms e) \<Longrightarrow>
     distinct (en_platforms (record_item p it e)) \<and> en_platforms (record_item p it e) \<noteq> []"
  unfolding record_item_def by auto

lemma merge_items_platforms:
  assumes "list_all (\<lambda>(k, e). distinct (en_platforms e) \<and> en_platforms e \<noteq> []) km"
  shows "list_all (\<lambda>(k, e). distinct (en_platforms e) \<and> en_platforms e \<noteq> [])
           (foldl (merge_item normalise p) km items)"
  using assms
proof (induction items arbitrary: km)
  case Nil
  then show ?case by simp
next
  case (Cons it items)
  have "list_all (\<lambda>(k, e). distinct (en_platforms e) \<and> en_platforms e \<noteq> [])
          (merge_item normalise p km it)"
    unfolding merge_item_def
  proof (rule km_update_all [OF Cons.prems])
    show "distinct (en_platforms (record_item p it (new_entry it)))
        \<and> en_platforms (record_item p it (new_entry it)) \<noteq> []"
      by (rule record_item_platforms) (simp add: new_entry_def)
  next
    fix e :: "'a entry"
    assume "distinct (en_platforms e) \<and> en_platforms e \<noteq> []"
    then show "distinct (en_platforms (record_item p it e))
        \<and> en_platforms (record_item p it e) \<noteq> []"
      using record_item_platforms [of e p it] by simp
  qed
  from Cons.IH [OF this] show ?case by simp
qed

lemma keyword_map_platforms:
  "list_all (\<lambda>(k, e). distinct (en_platforms e) \<and> en_platforms e \<noteq> [])
     (build_keyword_map normalise all_data)"
proof -
  have "list_all (\<lambda>(k, e). distinct (en_platforms e) \<and> en_platforms e \<noteq> []) km \<Longrightarrow>
        list_all (\<lambda>(k, e). distinct (en_platforms e) \<and> en_platforms e \<noteq> [])
          (foldl (merge_platform normalise) km all_data)" for km :: "(pystr \<times> 'a entry) list"
  proof (induction all_data arbitrary: km)
    case Nil
    then show ?case by simp
  next
    case (Cons pl all_data)
    have "list_all (\<lambda>(k, e). distinct (en_platforms e) \<and> en_platforms e \<noteq> [])
            (merge_platform normalise km pl)"
      unfolding merge_platform_def by (rule merge_items_platforms [OF Cons.prems])
    from Cons.IH [OF this] show ?case by simp
  qed
  from this [of "[]"] show ?thesis unfolding build_keyword_map_def by simp
qed

text \<open>
  The part of C1 that the code keeps: every merged record lists each platform once, and
  \<open>platform_count\<close> is the number of its platforms, at least one.
\<close>

lemma merged_platform_count:
  assumes "m \<in> set (merge_sorted normalise now all_data)"
  shows "mt_platform_count m = card (set (mt_platforms m)) \<and> 1 \<le> mt_platform_count m"
proof -
  have "set (merge_sorted normalise now all_data) =
      set (map (\<lambda>(norm_keyword, data). to_merged now data) (build_keyword_map normalise all_data))"
    unfolding merge_sorted_def by (rule sort_desc_set)
  with assms obtain k e where ke: "(k, e) \<in> set (build_keyword_map normalise all_data)"
    and m: "m = to_merged now e"
    by auto
  have "distinct (en_platforms e) \<and> en_platforms e \<noteq> []"
    using keyword_map_platforms [of normalise all_data] ke unfolding list_all_iff by blast
  then show ?thesis
    unfolding m to_merged_def by (cases "en_platforms e") (simp_all add: distinct_card)
qed

lemma km_update_keyed:
  assumes "list_all Q km" and "Q' (k, f fresh)" and "\<And>e. Q (k, e) \<Longrightarrow> Q' (k, f e)"
    and "\<And>kv. Q kv \<Longrightarrow> Q' kv"
  shows "list_all Q' (km_update k fresh f km)"
  using assms(1)
proof (induction km)
  case Nil
  then show ?case using assms(2) by simp
next
  case (Cons kv km)
  obtain k' e where kv: "kv = (k', e)" by (cases kv)
  show ?case
  proof (cases "k' = k")
    case True
    have "list_all Q' km"
      using Cons.prems assms(4) by (auto simp: list_all_iff)
    moreover have "Q' (k, f e)"
      using Cons.prems kv True assms(3) by simp
    ultimately show ?thesis using kv True by simp
  next
    case False
    have "Q' (k', e)" using Cons.prems kv assms(4) by simp
    moreover have "list_all Q' (km_update k fresh f km)"
      using Cons.IH Cons.prems by simp
    ultimately show ?thesis using kv False by simp
  qed
qed

lemma dict_set_fresh:
  "k \<notin> fst ` set d \<Longrightarrow> dict_set d k v = d @ [(k, v)]"
  by (induction d) auto

lemma record_item_consistent:
  assumes "heat_consistent_in p handled seen (k, e)" and "k \<notin> handled"
  shows "heat_consistent_in p (insert k handled) seen (k, record_item p it e)"
proof -
  from assms have fresh: "p \<notin> fst ` set (en_raw_heat_scores e)"
    and tot: "en_total_raw_heat e = sum_list (map snd (en_raw_heat_scores e))"
    and sub: "fst ` set (en_raw_heat_scores e) \<subseteq> insert p seen"
    unfolding heat_consistent_in_def heat_consistent_def by auto
  have "en_raw_heat_scores (record_item p it e) =
      en_raw_heat_scores e @ [(p, ri_raw_heat_score it)]"
    using dict_set_fresh [OF fresh] by (simp add: record_item_def)
  moreover have "en_total_raw_heat (record_item p it e) =
      en_total_raw_heat e + ri_raw_heat_score it"
    by (simp add: record_item_def)
  ultimately show ?thesis
    using tot sub unfolding heat_consistent_in_def heat_consistent_def by auto
qed

lemma new_entry_consistent:
  "heat_consistent_in p handled seen (k, new_entry it)"
  unfolding heat_consistent_in_def heat_consistent_def new_entry_def by simp

lemma consistent_in_mono:
  "heat_consistent_in p handled seen kv \<Longrightarrow> heat_consistent_in p (insert k handled) seen kv"
  unfolding heat_consistent_in_def by auto

lemma merge_items_consistent:
  assumes "list_all (heat_consistent_in p handled seen) km"
    and "distinct (map (\<lambda>item. normalise (ri_keyword item)) items)"
    and "set (map (\<lambda>item. normalise (ri_keyword item)) items) \<inter> handled = {}"
  shows "list_all (heat_consistent_in p
            (handled \<union> set (map (\<lambda>item. normalise (ri_keyword item)) items)) seen)
           (foldl (merge_item normalise p) km items)"
  using assms
proof (induction items arbitrary: km handled)
  case Nil
  then show ?case by simp
next
  case (Cons it items)
  let ?k = "normalise (ri_keyword it)"
  from Cons.prems(3) have nk: "?k \<notin> handled" by auto
  have step: "list_all (heat_consistent_in p (insert ?k handled) seen)
      (merge_item normalise p km it)"
    unfolding merge_item_def
  proof (rule km_update_keyed [OF Cons.prems(1)])
    show "heat_consistent_in p (insert ?k handled) seen (?k, record_item p it (new_entry it))"
      by (rule record_item_consistent [OF new_entry_consistent nk])
  next
    fix e :: "'a entry"
    assume "heat_consistent_in p handled seen (?k, e)"
    then show "heat_consistent_in p (insert ?k handled) seen (?k, record_item p it e)"
      using nk by (rule record_item_consistent)
  next
    fix kv :: "pystr \<times> 'a entry"
    assume "heat_consistent_in p handled seen kv"
    then show "heat_consistent_in p (insert ?k handled) seen kv"
      by (rule consistent_in_mono)
  qed
  have d: "distinct (map (\<lambda>item. normalise (ri_keyword item)) items)"
    using Cons.prems(2) by simp
  have i: "set (map (\<lambda>item. normalise (ri_keyword item)) items) \<inter> insert ?k handled = {}"
    using Cons.prems(2,3) by auto
  from Cons.IH [OF step d i] show ?case by simp
qed

lemma merge_platforms_consistent:
  assumes "list_all (heat_consistent seen) km"
    and "distinct (map fst all_data)"
    and "set (map fst all_data) \<inter> seen = {}"
    and "list_all (\<lambda>pl. distinct (map (\<lambda>item. normalise (ri_keyword item)) (snd pl))) all_data"
  shows "list_all (heat_consistent (seen \<union> set (map fst all_data)))
           (foldl (merge_platform normalise) km all_data)"
  using assms
proof (induction all_data arbitrary: km seen)
  case Nil
  then show ?case by simp
next
  case (Cons pl all_data)
  let ?p = "fst pl"
  from Cons.prems(3) have pn: "?p \<notin> seen" by auto
  have start: "list_all (heat_consistent_in ?p {} seen) km"
    using Cons.prems(1) pn
    unfolding list_all_iff heat_consistent_in_def heat_consistent_def by auto
  have "list_all (heat_consistent_in ?p
          ({} \<union> set (map (\<lambda>item. normalise (ri_keyword item)) (snd pl))) seen)
          (merge_platform normalise km pl)"
    unfolding merge_platform_def
    using Cons.prems(4) by (intro merge_items_consistent [OF start]) simp_all
  then have fin: "list_all (heat_consistent (insert ?p seen)) (merge_platform normalise km pl)"
    unfolding list_all_iff heat_consistent_in_def by auto
  have d: "distinct (map fst all_data)" using Cons.prems(2) by simp
  have i: "set (map fst all_data) \<inter> insert ?p seen = {}"
    using Cons.prems(2,3) by auto
  have a: "list_all (\<lambda>pl. distinct (map (\<lambda>item. normalise (ri_keyword item)) (snd pl))) all_data"
    using Cons.prems(4) by simp
  from Cons.IH [OF fin d i a] show ?case by simp
qed

text \<open>
  The case in which the second invariant of C1 does hold: when no platform reports two
  items with the same normalised keyword, every merged total is the sum over
  \<open>heat_by_platform\<close>.
\<close>

lemma merged_total_is_sum:
  assumes "keys_unique normalise all_data"
    and "m \<in> set (merge_sorted normalise now all_data)"
  shows "mt_raw_heat_score m = sum_list (map snd (mt_heat_by_platform m))"
proof -
  have "list_all (heat_consistent ({} \<union> set (map fst all_data)))
      (build_keyword_map normalise all_data)"
    unfolding build_keyword_map_def
    using assms(1) unfolding keys_unique_def
    by (intro merge_platforms_consistent) simp_all
  moreover have "set (merge_sorted normalise now all_data) =
      set (map (\<lambda>(norm_keyword, data). to_merged now data) (build_keyword_map normalise all_data))"
    unfolding merge_sorted_def by (rule sort_desc_set)
  ultimately show ?thesis
    using assms(2) unfolding list_all_iff heat_consistent_def to_merged_def by auto
qed

text \<open>
  C1 fails on the code: one platform reports two items whose keywords (\<open>AI\<close> and
  \<open>ai\<close>) normalise to the same key. The total accumulates both heats (150) while the
  per-platform map keeps only the last one (50), so the total is not the sum over
  \<open>heat_by_platform\<close>.
\<close>

theorem C1_duplicate_key_total:
  "map (\<lambda>m. (mt_platform_count m, mt_raw_heat_score m, sum_list (map snd (mt_heat_by_platform m))))
     (merge_sorted (normalize_keyword uni_alnum uni_lower) (str ''now'')
        [(str ''weibo'', [item ''AI'' 100, item ''ai'' 50])])
   = [(1, 150, 50)]"
  by (simp add: merge_sorted_def sort_desc_def build_keyword_map_def merge_platform_def
      merge_item_def to_merged_def record_item_def new_entry_def item_def
      normalize_keyword_def str_def strip_def is_space_def kept_char_def word_char_def
      ascii_alnum_def py_lower_def)

text \<open>
  C3 (amended): the list returned by \<open>fetch_and_merge\<close> is in descending order of total
  raw heat; records with equal total heat keep the order of \<open>keyword_map\<close>, which is the
  order in which their normalised keywords first occurred in the adapter outputs
  (platforms in registration order, items in adapter order). Neither \<open>first_seen\<close> nor
  the keyword takes part in the ordering.
\<close>

theorem C3_descending_stable:
  "sorted_wrt (\<lambda>a b. mt_raw_heat_score b \<le> mt_raw_heat_score a)
     (merge_sorted normalise now all_data)
   \<and> filter (\<lambda>m. mt_raw_heat_score m = h) (merge_sorted normalise now all_data) =
       filter (\<lambda>m. mt_raw_heat_score m = h)
         (map (\<lambda>(norm_keyword, data). to_merged now data) (build_keyword_map normalise all_data))
   \<and> map fst (build_keyword_map normalise all_data) =
       first_occurrences (normalized_keys normalise all_data)"
proof (intro conjI)
  show "sorted_wrt (\<lambda>a b. mt_raw_heat_score b \<le> mt_raw_heat_score a)
     (merge_sorted normalise now all_data)"
    unfolding merge_sorted_def by (rule sort_desc_sorted)
next
  show "filter (\<lambda>m. mt_raw_heat_score m = h) (merge_sorted normalise now all_data) =
       filter (\<lambda>m. mt_raw_heat_score m = h)
         (map (\<lambda>(norm_keyword, data). to_merged now data) (build_keyword_map normalise all_data))"
    unfolding merge_sorted_def by (rule sort_desc_stable)
next
  show "map fst (build_keyword_map normalise all_data) =
       first_occurrences (normalized_keys normalise all_data)"
    by (rule keyword_map_keys)
qed

text \<open>
  C3 as stated fails: two keywords with the same heat and the same timestamp come out in
  adapter order (\<open>b\<close> before \<open>a\<close>), not in lexicographic order.
\<close>

theorem C3_counterexample:
  "map mt_keyword
     (merge_sorted (normalize_keyword (\<lambda>c. False) (\<lambda>s i. [s ! i])) (str ''now'')
        [(str ''weibo'', [item ''b'' 10, item ''a'' 10])])
   = [str ''b'', str ''a'']
   \<and> str ''a'' < str ''b''"
  by (simp add: merge_sorted_def sort_desc_def build_keyword_map_def merge_platform_def
      merge_item_def to_merged_def record_item_def new_entry_def item_def
      normalize_keyword_def str_def strip_def is_space_def kept_char_def word_char_def
      ascii_alnum_def py_lower_def)

text \<open>
  C8 fails on the code: the underscore is a word character of the regular expression, so
  it survives normalisation; \<open>a_b\<close> keeps its underscore, where the stated rule (and the
  comment in the source: keep Chinese, English, digits) gives \<open>ab\<close>.
\<close>

theorem C8_underscore_kept:
  "normalize_keyword uni_alnum uni_lower (str ''a_b'') = str ''a_b''
   \<and> normalize_spec (str ''a_b'') = str ''ab''"
  by (simp add: normalize_keyword_def normalize_spec_def str_def strip_def is_space_def
      kept_char_def word_char_def ascii_alnum_def py_lower_def)


section \<open>Properties of the cache\<close>








text \<open>The bundled adapters never raise, and a failed source gives the empty list.\<close>

lemma weibo_never_raises: "\<exists>xs. weibo_fetch_trending a b c limit = Inr xs"
  unfolding weibo_fetch_trending_def by (auto split: sum.splits)

lemma zhihu_never_raises: "\<exists>xs. zhihu_fetch_trending a c limit = Inr xs"
  unfolding zhihu_fetch_trending_def by (auto split: sum.splits)

lemma bilibili_never_raises: "\<exists>xs. bilibili_fetch_trending a b c limit = Inr xs"
  unfolding bilibili_fetch_trending_def by (auto split: sum.splits)















section \<open>Properties of the archive statistics\<close>

lemma stats_keys:
  "map fst (foldl (stats_step bl fb) ks items) =
     foldl (\<lambda>acc k. if k \<in> set acc then acc else acc @ [k]) (map fst ks)
       (surviving_titles bl fb items)"
proof (induction items arbitrary: ks)
  case Nil
  then show ?case by (simp add: surviving_titles_def)
next
  case (Cons it items)
  show ?case
  proof (cases "fb \<and> bl (hs_title it)")
    case True
    then have "stats_step bl fb ks it = ks" by (simp add: stats_step_def)
    then show ?thesis using Cons.IH [of ks] True by (simp add: surviving_titles_def)
  next
    case False
    then have st: "stats_step bl fb ks it =
        km_update (hs_title it) (new_stats (hs_date it)) (count_item (hs_date it)) ks"
      by (auto simp: stats_step_def)
    have "map fst (stats_step bl fb ks it) =
        (if hs_title it \<in> set (map fst ks) then map fst ks else map fst ks @ [hs_title it])"
      unfolding st by (rule km_update_keys)
    moreover have "surviving_titles bl fb (it # items) = hs_title it # surviving_titles bl fb items"
      using False by (auto simp: surviving_titles_def)
    ultimately show ?thesis
      using Cons.IH [of "stats_step bl fb ks it"] by simp
  qed
qed

lemma build_results_keys:
  "build_results ml sp ks = Inr results \<Longrightarrow> map yt_keyword results = map fst ks"
proof (induction ks arbitrary: results)
  case Nil
  then show ?case by simp
next
  case (Cons kv ks)
  obtain k stats where kv: "kv = (k, stats)" by (cases kv)
  from Cons.prems kv obtain rest r where
    t: "trend_item ml sp k stats = Inr r"
    and "build_results ml sp ks = Inr rest" and "results = r # rest"
    by (auto split: sum.splits)
  moreover from t have "yt_keyword r = k"
    by (auto simp: trend_item_def Let_def split: sum.splits option.splits prod.splits)
  ultimately show ?case using Cons.IH [of rest] kv by simp
qed

lemma unsorted_stats_keys:
  assumes "unsorted_stats ml sp bl items fb = Inr unsorted"
  shows "map yt_keyword unsorted = first_occurrences (surviving_titles bl fb items)"
  using build_results_keys [OF assms [unfolded unsorted_stats_def]]
    stats_keys [of bl fb "[]" items]
  by (simp add: first_occurrences_def)

lemma aggregate_sorted:
  assumes "unsorted_stats ml sp bl items fb = Inr unsorted"
  shows "aggregate_yearly_stats ml sp bl items fb sort_by
           = Inr (sort_desc (sort_key_of sort_by) unsorted)"
proof -
  have "sort_key_of sort_by =
      (if sort_by = str ''burst'' then (\<lambda>x. fkey (yt_burst_score x))
       else if sort_by = str ''days'' then (\<lambda>x. real (yt_days_on_list x))
       else (\<lambda>x. real (yt_total_appearances x)))"
    by (rule ext) (simp add: sort_key_of_def)
  then show ?thesis
    using assms unfolding aggregate_yearly_stats_def by simp
qed

lemma fl_6_5: "fl (6 / 5) = 5404319552844595 / 2 ^ 52"
  using fl_at [of "- 52" "6 / 5"] by (simp add: powr_neg_numeral rhe_def)

lemma sample_item_one:
  "trend_item ml sample_strptime k
     \<lparr>ks_total_appearances = 1, ks_dates = [str ''2024-03-01''],
      ks_first_seen = str ''2024-03-01'', ks_last_seen = str ''2024-03-01'',
      ks_date_counts = [(str ''2024-03-01'', 1)]\<rparr>
   = Inr \<lparr>yt_keyword = k, yt_total_appearances = 1, yt_days_on_list = 1,
          yt_peak_date = str ''2024-03-01'', yt_first_seen = str ''2024-03-01'',
          yt_last_seen = str ''2024-03-01'', yt_avg_appearances_per_day = Fin 1,
          yt_burst_score = Fin (fl (3 / 10)), yt_peak_intensity = 1\<rparr>"
proof -
  have one: "fl_round 1 = Fin 1" using fl_round_of_int [of 1] by simp
  have "rhe 100 = 100" using rhe_of_int [of 100] by simp
  then show ?thesis
    using one
    by (simp add: trend_item_def most_common_1_def sample_strptime_def int_truediv_def
        burst_single str_def)
qed

lemma sample_item_two:
  "trend_item ml sample_strptime k
     \<lparr>ks_total_appearances = 2, ks_dates = [str ''2024-03-01'', str ''2024-03-02''],
      ks_first_seen = str ''2024-03-01'', ks_last_seen = str ''2024-03-02'',
      ks_date_counts = [(str ''2024-03-01'', 1), (str ''2024-03-02'', 1)]\<rparr>
   = Inr \<lparr>yt_keyword = k, yt_total_appearances = 2, yt_days_on_list = 2,
          yt_peak_date = str ''2024-03-01'', yt_first_seen = str ''2024-03-01'',
          yt_last_seen = str ''2024-03-02'', yt_avg_appearances_per_day = Fin 1,
          yt_burst_score = Fin (fl (6 / 5)), yt_peak_intensity = 1\<rparr>"
proof -
  have one: "fl_round 1 = Fin 1" using fl_round_of_int [of 1] by simp
  have "rhe 100 = 100" using rhe_of_int [of 100] by simp
  then show ?thesis
    using one
    by (simp add: trend_item_def most_common_1_def sample_strptime_def int_truediv_def
        burst_two_days str_def)
qed

lemma sample_stats_two:
  "foldl (stats_step (\<lambda>t. False) True) []
     [hot ''b'' ''2024-03-01'', hot ''a'' ''2024-03-01'']
   = [(str ''b'', \<lparr>ks_total_appearances = 1, ks_dates = [str ''2024-03-01''],
         ks_first_seen = str ''2024-03-01'', ks_last_seen = str ''2024-03-01'',
         ks_date_counts = [(str ''2024-03-01'', 1)]\<rparr>),
      (str ''a'', \<lparr>ks_total_appearances = 1, ks_dates = [str ''2024-03-01''],
         ks_first_seen = str ''2024-03-01'', ks_last_seen = str ''2024-03-01'',
         ks_date_counts = [(str ''2024-03-01'', 1)]\<rparr>)]"
  by (simp add: stats_step_def hot_def new_stats_def count_item_def str_def)

lemma sample_stats_three:
  "foldl (stats_step (\<lambda>t. False) True) []
     [hot ''b'' ''2024-03-01'', hot ''a'' ''2024-03-01'', hot ''a'' ''2024-03-02'']
   = [(str ''b'', \<lparr>ks_total_appearances = 1, ks_dates = [str ''2024-03-01''],
         ks_first_seen = str ''2024-03-01'', ks_last_seen = str ''2024-03-01'',
         ks_date_counts = [(str ''2024-03-01'', 1)]\<rparr>),
      (str ''a'', \<lparr>ks_total_appearances = 2,
         ks_dates = [str ''2024-03-01'', str ''2024-03-02''],
         ks_first_seen = str ''2024-03-01'', ks_last_seen = str ''2024-03-02'',
         ks_date_counts = [(str ''2024-03-01'', 1), (str ''2024-03-02'', 1)]\<rparr>)]"
  by (simp add: stats_step_def hot_def new_stats_def count_item_def str_def)

lemma sample_archive:
  "map_sum id (map (\<lambda>x. (yt_keyword x, yt_burst_score x)))
     (aggregate_yearly_stats ml sample_strptime (\<lambda>t. False)
        [hot ''b'' ''2024-03-01'', hot ''a'' ''2024-03-01''] True (str ''burst''))
   = Inr [(str ''b'', Fin (fl (3 / 10))), (str ''a'', Fin (fl (3 / 10)))]"
  using sample_item_one [of ml "str ''b''"] sample_item_one [of ml "str ''a''"]
  by (simp add: aggregate_yearly_stats_def unsorted_stats_def sample_stats_two
      sort_desc_def del: foldl.simps)

lemma sample_archive_three:
  "map_sum id (map (\<lambda>x. (yt_keyword x, yt_burst_score x)))
     (aggregate_yearly_stats ml sample_strptime (\<lambda>t. False)
        [hot ''b'' ''2024-03-01'', hot ''a'' ''2024-03-01'', hot ''a'' ''2024-03-02'']
        True (str ''burst''))
   = Inr [(str ''a'', Fin (fl (6 / 5))), (str ''b'', Fin (fl (3 / 10)))]"
proof -
  have "fl (3 / 10) < fl (6 / 5)" unfolding fl_3_10 fl_6_5 by simp
  then show ?thesis
    using sample_item_one [of ml "str ''b''"] sample_item_two [of ml "str ''a''"]
    by (simp add: aggregate_yearly_stats_def unsorted_stats_def sample_stats_three
        sort_desc_def del: foldl.simps)
qed

text \<open>
  Every keyword of the statistics is counted on at least one date and at least once
  per date, so \<open>1 \<le> days_on_list \<le> total_appearances\<close>; hence no burst score of the
  aggregation is a NaN, and the floats that the burst sort compares are ordered.
\<close>

lemma km_update_ball:
  assumes "\<forall>kv \<in> set kvs. P (snd kv)" and "P (f fresh)" and "\<And>v. P v \<Longrightarrow> P (f v)"
  shows "\<forall>kv \<in> set (km_update k fresh f kvs). P (snd kv)"
  using assms(1)
proof (induction kvs)
  case Nil
  then show ?case using assms(2) by simp
next
  case (Cons a kvs)
  then show ?case using assms(3) by (cases a) auto
qed

lemma count_item_counts:
  "length (ks_dates s) \<le> ks_total_appearances s \<Longrightarrow>
     1 \<le> length (ks_dates (count_item date s))
     \<and> length (ks_dates (count_item date s)) \<le> ks_total_appearances (count_item date s)"
  by (cases "ks_dates s") (auto simp: count_item_def Let_def)

lemma stats_counts:
  assumes "\<forall>kv \<in> set ks. 1 \<le> length (ks_dates (snd kv))
              \<and> length (ks_dates (snd kv)) \<le> ks_total_appearances (snd kv)"
  shows "\<forall>kv \<in> set (foldl (stats_step bl fb) ks items).
           1 \<le> length (ks_dates (snd kv))
         \<and> length (ks_dates (snd kv)) \<le> ks_total_appearances (snd kv)"
  using assms
proof (induction items arbitrary: ks)
  case Nil
  then show ?case by simp
next
  case (Cons it items)
  have "\<forall>kv \<in> set (stats_step bl fb ks it).
           1 \<le> length (ks_dates (snd kv))
         \<and> length (ks_dates (snd kv)) \<le> ks_total_appearances (snd kv)"
  proof (cases "fb \<and> bl (hs_title it)")
    case True
    then show ?thesis using Cons.prems by (simp add: stats_step_def)
  next
    case False
    then have st: "stats_step bl fb ks it =
        km_update (hs_title it) (new_stats (hs_date it)) (count_item (hs_date it)) ks"
      by (auto simp: stats_step_def)
    show ?thesis
      unfolding st
    proof (rule km_update_ball)
      show "\<forall>kv \<in> set ks. 1 \<le> length (ks_dates (snd kv))
              \<and> length (ks_dates (snd kv)) \<le> ks_total_appearances (snd kv)"
        by (rule Cons.prems)
      show "1 \<le> length (ks_dates (count_item (hs_date it) (new_stats (hs_date it))))
          \<and> length (ks_dates (count_item (hs_date it) (new_stats (hs_date it))))
              \<le> ks_total_appearances (count_item (hs_date it) (new_stats (hs_date it)))"
        by (rule count_item_counts) (simp add: new_stats_def)
      show "1 \<le> length (ks_dates (count_item (hs_date it) v))
          \<and> length (ks_dates (count_item (hs_date it) v))
              \<le> ks_total_appearances (count_item (hs_date it) v)"
        if "1 \<le> length (ks_dates v) \<and> length (ks_dates v) \<le> ks_total_appearances v" for v
        using that by (intro count_item_counts) simp
    qed
  qed
  from Cons.IH [OF this] show ?case by simp
qed

lemma trend_item_not_nan:
  assumes "trend_item ml sp k s = Inr r" and "\<forall>d. ml d \<noteq> NaN"
    and "1 \<le> length (ks_dates s)" and "length (ks_dates s) \<le> ks_total_appearances s"
  shows "yt_burst_score r \<noteq> NaN"
proof -
  from assms(1) obtain pi fd ld where
    b: "calculate_burst_score ml (int (ks_total_appearances s)) (int (length (ks_dates s)))
          (int pi) (ld - fd + 1) = Inr (yt_burst_score r)"
    unfolding trend_item_def Let_def
    by (auto split: sum.splits option.splits prod.splits)
  have "calculate_burst_score ml (int (ks_total_appearances s)) (int (length (ks_dates s)))
          (int pi) (ld - fd + 1) \<noteq> Inr NaN"
    using assms(2,3,4) by (intro burst_not_nan) simp_all
  with b show ?thesis by auto
qed

lemma build_results_not_nan:
  assumes "build_results ml sp ks = Inr results" and "\<forall>d. ml d \<noteq> NaN"
    and "\<forall>kv \<in> set ks. 1 \<le> length (ks_dates (snd kv))
              \<and> length (ks_dates (snd kv)) \<le> ks_total_appearances (snd kv)"
  shows "\<forall>r \<in> set results. yt_burst_score r \<noteq> NaN"
  using assms(1,3)
proof (induction ks arbitrary: results)
  case Nil
  then show ?case by simp
next
  case (Cons kv ks)
  obtain k s where kv: "kv = (k, s)" by (cases kv)
  from Cons.prems(1) kv obtain r rest where
    t: "trend_item ml sp k s = Inr r"
    and g: "build_results ml sp ks = Inr rest" and res: "results = r # rest"
    by (auto split: sum.splits)
  have "yt_burst_score r \<noteq> NaN"
    using trend_item_not_nan [OF t assms(2)] Cons.prems(2) kv by simp
  moreover have "\<forall>x \<in> set rest. yt_burst_score x \<noteq> NaN"
    using Cons.IH [OF g] Cons.prems(2) by simp
  ultimately show ?case using res by simp
qed

lemma archive_burst_not_nan:
  assumes "aggregate_yearly_stats ml sp bl items fb sort_by = Inr results"
    and "\<forall>d. ml d \<noteq> NaN"
  shows "\<forall>r \<in> set results. yt_burst_score r \<noteq> NaN"
proof -
  from assms(1) obtain unsorted where
    u: "unsorted_stats ml sp bl items fb = Inr unsorted"
    unfolding aggregate_yearly_stats_def by (auto split: sum.splits)
  have "\<forall>kv \<in> set (foldl (stats_step bl fb) [] items).
           1 \<le> length (ks_dates (snd kv))
         \<and> length (ks_dates (snd kv)) \<le> ks_total_appearances (snd kv)"
    by (rule stats_counts) simp
  with u have n: "\<forall>r \<in> set unsorted. yt_burst_score r \<noteq> NaN"
    unfolding unsorted_stats_def using build_results_not_nan [OF _ assms(2)] by blast
  have "results = sort_desc (sort_key_of sort_by) unsorted"
    using aggregate_sorted [OF u, of sort_by] assms(1) by simp
  then have "set results = set unsorted" by (simp add: sort_desc_def)
  with n show ?thesis by simp
qed

text \<open>
  C7 (amended): whenever the archive aggregation returns a list, for each sort mode the
  list is in descending order of the selected key, and entries with equal keys keep the
  order in which their titles first appeared in the (filtered) corpus; the keyword string
  plays no part in the ordering.
\<close>

theorem C7_descending_stable:
  assumes "aggregate_yearly_stats math_log5 strptime is_blacklisted items filter_blacklist
             sort_by = Inr results"
  shows "sorted_wrt (\<lambda>a b. sort_key_of sort_by b \<le> sort_key_of sort_by a) results
       \<and> (\<exists>unsorted.
            unsorted_stats math_log5 strptime is_blacklisted items filter_blacklist
              = Inr unsorted
          \<and> map yt_keyword unsorted =
              first_occurrences (surviving_titles is_blacklisted filter_blacklist items)
          \<and> (\<forall>h. filter (\<lambda>x. sort_key_of sort_by x = h) results =
                   filter (\<lambda>x. sort_key_of sort_by x = h) unsorted))"
proof -
  from assms obtain unsorted where
    u: "unsorted_stats math_log5 strptime is_blacklisted items filter_blacklist = Inr unsorted"
    unfolding aggregate_yearly_stats_def by (auto split: sum.splits)
  have r: "results = sort_desc (sort_key_of sort_by) unsorted"
    using aggregate_sorted [OF u, of sort_by] assms by simp
  have "sorted_wrt (\<lambda>a b. sort_key_of sort_by b \<le> sort_key_of sort_by a) results"
    unfolding r by (rule sort_desc_sorted)
  moreover have "\<forall>h. filter (\<lambda>x. sort_key_of sort_by x = h) results =
                   filter (\<lambda>x. sort_key_of sort_by x = h) unsorted"
    unfolding r by (simp add: sort_desc_stable)
  ultimately show ?thesis using u unsorted_stats_keys [OF u] by blast
qed

theorem C7_descending_stable_witness:
  "map_sum id (map (\<lambda>x. (yt_keyword x, yt_burst_score x)))
     (aggregate_yearly_stats (\<lambda>d. Fin 2) sample_strptime (\<lambda>t. False)
        [hot ''b'' ''2024-03-01'', hot ''a'' ''2024-03-01'', hot ''a'' ''2024-03-02'']
        True (str ''burst''))
   = Inr [(str ''a'', Fin (fl (6 / 5))), (str ''b'', Fin (fl (3 / 10)))]
   \<and> (case aggregate_yearly_stats (\<lambda>d. Fin 2) sample_strptime (\<lambda>t. False)
        [hot ''b'' ''2024-03-01'', hot ''a'' ''2024-03-01'', hot ''a'' ''2024-03-02'']
        True (str ''burst'') of
         Inl e \<Rightarrow> False
       | Inr rs \<Rightarrow>
           sorted_wrt (\<lambda>a b. sort_key_of (str ''burst'') b \<le> sort_key_of (str ''burst'') a) rs)"
proof -
  let ?agg = "aggregate_yearly_stats (\<lambda>d. Fin 2) sample_strptime (\<lambda>t. False)
        [hot ''b'' ''2024-03-01'', hot ''a'' ''2024-03-01'', hot ''a'' ''2024-03-02'']
        True (str ''burst'')"
  obtain rs where r: "?agg = Inr rs"
    using sample_archive_three [of "\<lambda>d. Fin 2"] by (cases ?agg) simp_all
  from C7_descending_stable [OF r]
  have "sorted_wrt (\<lambda>a b. sort_key_of (str ''burst'') b \<le> sort_key_of (str ''burst'') a) rs"
    by blast
  with r sample_archive_three [of "\<lambda>d. Fin 2"] show ?thesis by simp
qed

text \<open>
  C7 as stated fails: two titles with the same burst score (0.3 each) come out in corpus
  order, \<open>b\<close> before \<open>a\<close>, not ordered by their keyword strings.
\<close>

theorem C7_counterexample:
  "map_sum id (map (\<lambda>x. (yt_keyword x, yt_burst_score x)))
     (aggregate_yearly_stats (\<lambda>d. Fin 2) sample_strptime (\<lambda>t. False)
        [hot ''b'' ''2024-03-01'', hot ''a'' ''2024-03-01''] True (str ''burst''))
   = Inr [(str ''b'', Fin (fl (3 / 10))), (str ''a'', Fin (fl (3 / 10)))]
   \<and> str ''a'' < str ''b''"
  using sample_archive [of "\<lambda>d. Fin 2"] by (simp add: str_def)

section \<open>Properties of RealScore\<close>

lemma longevity_total:
  "calculate_longevity_factor fi f l =
     Inr (case (f, l) of
            (PStr a, PStr b) \<Rightarrow>
              (case (fi a, fi b) of
                 (Some x, Some y) \<Rightarrow>
                   if dt_aware x = dt_aware y \<and> - 1 \<le> whole_days x y
                   then log 2 (real_of_int (whole_days x y + 2)) else 1
               | _ \<Rightarrow> 1)
          | _ \<Rightarrow> 1)"
  unfolding calculate_longevity_factor_def longevity_try_def Let_def
  by (auto split: pyval.splits option.splits simp: algebra_simps)

lemma longevity_same_day:
  assumes "fi a = Some x" and "fi b = Some y" and "dt_aware x = dt_aware y"
    and "whole_days x y = 0"
  shows "calculate_longevity_factor fi (PStr a) (PStr b) = Inr 1"
  using assms by (simp add: longevity_total)

lemma longevity_failure:
  assumes "longevity_try fi f l = Inl e"
  shows "calculate_longevity_factor fi f l = Inr 1"
proof -
  have "e = ValueError \<or> e = TypeError"
    using assms unfolding longevity_try_def Let_def
    by (auto split: pyval.splits option.splits if_splits)
  then show ?thesis using assms unfolding calculate_longevity_factor_def by auto
qed

lemma log_2_3_gt_1: "1 < log 2 (3::real)"
  by (simp add: less_log_iff)

text \<open>
  C2 (amended): the longevity factor never raises. For two timestamps that parse (both
  with or both without an offset) and \<open>D\<close> whole days from \<open>first_seen\<close> to
  \<open>last_seen\<close>, \<open>D \<ge> -1\<close>, it is \<open>log2(D + 2)\<close>: the active days are counted
  inclusively, \<open>D + 1\<close>, so \<open>D = 0\<close> gives 1.0. It is 1.0 in each of the failing
  cases: a \<open>first_seen\<close> or \<open>last_seen\<close> that is no string, a string that does not
  parse (the empty string of a missing field among them), one offset-aware and one
  naive timestamp, and a \<open>last_seen\<close> two or more days before \<open>first_seen\<close>; these
  are all the cases in which the body of the \<open>try\<close> raises.
\<close>

theorem C2_longevity:
  "(\<exists>v. calculate_longevity_factor fi f l = Inr v)
   \<and> (fi a = Some x \<and> fi b = Some y \<and> dt_aware x = dt_aware y \<and> - 1 \<le> whole_days x y
        \<longrightarrow> calculate_longevity_factor fi (PStr a) (PStr b)
              = Inr (log 2 (real_of_int (whole_days x y) + 2)))
   \<and> (fi a = Some x \<and> fi b = Some y \<and> dt_aware x = dt_aware y \<and> whole_days x y = 0
        \<longrightarrow> calculate_longevity_factor fi (PStr a) (PStr b) = Inr 1)
   \<and> (longevity_try fi f l = Inl e \<longrightarrow> calculate_longevity_factor fi f l = Inr 1)
   \<and> (fi a = None \<longrightarrow> calculate_longevity_factor fi (PStr a) l = Inr 1)
   \<and> (fi b = None \<longrightarrow> calculate_longevity_factor fi f (PStr b) = Inr 1)
   \<and> ((\<forall>s. f \<noteq> PStr s) \<longrightarrow> calculate_longevity_factor fi f l = Inr 1)
   \<and> ((\<forall>s. l \<noteq> PStr s) \<longrightarrow> calculate_longevity_factor fi f l = Inr 1)
   \<and> (fi a = Some x \<and> fi b = Some y \<and> dt_aware x \<noteq> dt_aware y
        \<longrightarrow> calculate_longevity_factor fi (PStr a) (PStr b) = Inr 1)
   \<and> (fi a = Some x \<and> fi b = Some y \<and> whole_days x y \<le> - 2
        \<longrightarrow> calculate_longevity_factor fi (PStr a) (PStr b) = Inr 1)
   \<and> ((\<exists>e. longevity_try fi (PStr a) (PStr b) = Inl e) \<longleftrightarrow>
        (case (fi a, fi b) of
           (Some x, Some y) \<Rightarrow> dt_aware x \<noteq> dt_aware y \<or> whole_days x y \<le> - 2
         | _ \<Rightarrow> True))"
proof (intro conjI impI)
  show "\<exists>v. calculate_longevity_factor fi f l = Inr v"
    by (simp add: longevity_total)
next
  assume "fi a = Some x \<and> fi b = Some y \<and> dt_aware x = dt_aware y \<and> - 1 \<le> whole_days x y"
  then show "calculate_longevity_factor fi (PStr a) (PStr b)
      = Inr (log 2 (real_of_int (whole_days x y) + 2))"
    by (simp add: longevity_total)
next
  assume "fi a = Some x \<and> fi b = Some y \<and> dt_aware x = dt_aware y \<and> whole_days x y = 0"
  then show "calculate_longevity_factor fi (PStr a) (PStr b) = Inr 1"
    by (simp add: longevity_same_day)
next
  assume "longevity_try fi f l = Inl e"
  then show "calculate_longevity_factor fi f l = Inr 1"
    by (rule longevity_failure)
next
  assume "fi a = None"
  then show "calculate_longevity_factor fi (PStr a) l = Inr 1"
    by (simp add: longevity_total split: pyval.splits)
next
  assume "fi b = None"
  then show "calculate_longevity_factor fi f (PStr b) = Inr 1"
    by (simp add: longevity_total split: pyval.splits option.splits)
next
  assume "\<forall>s. f \<noteq> PStr s"
  then show "calculate_longevity_factor fi f l = Inr 1"
    by (cases f) (simp_all add: longevity_total)
next
  assume "\<forall>s. l \<noteq> PStr s"
  then show "calculate_longevity_factor fi f l = Inr 1"
    by (cases l) (simp_all add: longevity_total split: pyval.splits)
next
  assume "fi a = Some x \<and> fi b = Some y \<and> dt_aware x \<noteq> dt_aware y"
  then show "calculate_longevity_factor fi (PStr a) (PStr b) = Inr 1"
    by (simp add: longevity_total)
next
  assume "fi a = Some x \<and> fi b = Some y \<and> whole_days x y \<le> - 2"
  then show "calculate_longevity_factor fi (PStr a) (PStr b) = Inr 1"
    by (simp add: longevity_total)
next
  show "(\<exists>e. longevity_try fi (PStr a) (PStr b) = Inl e) \<longleftrightarrow>
        (case (fi a, fi b) of
           (Some x, Some y) \<Rightarrow> dt_aware x \<noteq> dt_aware y \<or> whole_days x y \<le> - 2
         | _ \<Rightarrow> True)"
    unfolding longevity_try_def Let_def
    by (auto split: option.splits)
qed

theorem C2_longevity_witness:
  "calculate_longevity_factor sample_fromisoformat
     (PStr (str ''2024-03-01'')) (PStr (str ''2024-03-02'')) = Inr (log 2 3)
   \<and> calculate_longevity_factor sample_fromisoformat
     (PStr (str ''2024-03-01'')) (PStr (str ''2024-03-01'')) = Inr 1
   \<and> calculate_longevity_factor sample_fromisoformat
     (PStr (str ''yesterday'')) (PStr (str ''2024-03-01'')) = Inr 1
   \<and> calculate_longevity_factor sample_fromisoformat PNone (PStr (str ''2024-03-01'')) = Inr 1
   \<and> calculate_longevity_factor sample_fromisoformat (PStr (str ''2024-03-01'')) (PInt 7) = Inr 1
   \<and> calculate_longevity_factor sample_fromisoformat
     (PStr (str ''2024-03-01'')) (PStr (str ''2024-03-02T00:00:00+00:00'')) = Inr 1
   \<and> calculate_longevity_factor sample_fromisoformat
     (PStr (str ''2024-03-04'')) (PStr (str ''2024-03-01'')) = Inr 1"
proof -
  let ?d1 = "\<lparr>dt_micros = 738946 * 86400000000, dt_aware = False\<rparr>"
  let ?d2 = "\<lparr>dt_micros = 738947 * 86400000000, dt_aware = False\<rparr>"
  let ?d4 = "\<lparr>dt_micros = 738949 * 86400000000, dt_aware = False\<rparr>"
  let ?u2 = "\<lparr>dt_micros = 738947 * 86400000000, dt_aware = True\<rparr>"
  have p1: "sample_fromisoformat (str ''2024-03-01'') = Some ?d1"
    and p2: "sample_fromisoformat (str ''2024-03-02'') = Some ?d2"
    and p3: "sample_fromisoformat (str ''yesterday'') = None"
    and p4: "sample_fromisoformat (str ''2024-03-04'') = Some ?d4"
    and p5: "sample_fromisoformat (str ''2024-03-02T00:00:00+00:00'') = Some ?u2"
    by (simp_all add: sample_fromisoformat_def str_def)
  have w1: "whole_days ?d1 ?d2 = 1" and w0: "whole_days ?d1 ?d1 = 0"
    and w3: "whole_days ?d4 ?d1 = - 3"
    by (simp_all add: whole_days_def)
  have t: "longevity_try sample_fromisoformat PNone (PStr (str ''2024-03-01'')) = Inl TypeError"
    by (simp add: longevity_try_def)
  have a: "calculate_longevity_factor sample_fromisoformat
     (PStr (str ''2024-03-01'')) (PStr (str ''2024-03-02'')) = Inr (log 2 3)"
    using C2_longevity [of sample_fromisoformat PNone PNone "str ''2024-03-01''" ?d1
        "str ''2024-03-02''" ?d2 TypeError] p1 p2 w1
    by simp
  have b: "calculate_longevity_factor sample_fromisoformat
     (PStr (str ''2024-03-01'')) (PStr (str ''2024-03-01'')) = Inr 1"
    using C2_longevity [of sample_fromisoformat PNone PNone "str ''2024-03-01''" ?d1
        "str ''2024-03-01''" ?d1 TypeError] p1 w0
    by simp
  have c: "calculate_longevity_factor sample_fromisoformat
     (PStr (str ''yesterday'')) (PStr (str ''2024-03-01'')) = Inr 1"
    using C2_longevity [of sample_fromisoformat PNone "PStr (str ''2024-03-01'')"
        "str ''yesterday''" ?d1 "str ''2024-03-01''" ?d1 TypeError] p3
    by simp
  have d: "calculate_longevity_factor sample_fromisoformat PNone (PStr (str ''2024-03-01'')) = Inr 1"
    using C2_longevity [of sample_fromisoformat PNone "PStr (str ''2024-03-01'')"
        "str ''2024-03-01''" ?d1 "str ''2024-03-01''" ?d1 TypeError] t
    by simp
  have e: "calculate_longevity_factor sample_fromisoformat (PStr (str ''2024-03-01'')) (PInt 7)
      = Inr 1"
    using C2_longevity [of sample_fromisoformat "PStr (str ''2024-03-01'')" "PInt 7"
        "str ''2024-03-01''" ?d1 "str ''2024-03-01''" ?d1 TypeError]
    by simp
  have f: "calculate_longevity_factor sample_fromisoformat
     (PStr (str ''2024-03-01'')) (PStr (str ''2024-03-02T00:00:00+00:00'')) = Inr 1"
    using C2_longevity [of sample_fromisoformat PNone PNone "str ''2024-03-01''" ?d1
        "str ''2024-03-02T00:00:00+00:00''" ?u2 TypeError] p1 p5
    by simp
  have g: "calculate_longevity_factor sample_fromisoformat
     (PStr (str ''2024-03-04'')) (PStr (str ''2024-03-01'')) = Inr 1"
    using C2_longevity [of sample_fromisoformat PNone PNone "str ''2024-03-04''" ?d4
        "str ''2024-03-01''" ?d1 TypeError] p1 p4 w3
    by simp
  show ?thesis using a b c d e f g by simp
qed

text \<open>
  C2 as stated fails: with one whole day between the two timestamps the code returns
  \<open>log2(3)\<close>, not \<open>log2(days_active + 1) = log2(2) = 1\<close>. Counting the active
  days inclusively instead, zero active days (a \<open>last_seen\<close> one day before
  \<open>first_seen\<close>) give 0.0, not 1.0.
\<close>

theorem C2_counterexample:
  "calculate_longevity_factor sample_fromisoformat
     (PStr (str ''2024-03-01'')) (PStr (str ''2024-03-02'')) = Inr (log 2 3)
   \<and> whole_days \<lparr>dt_micros = 738946 * 86400000000, dt_aware = False\<rparr>
        \<lparr>dt_micros = 738947 * 86400000000, dt_aware = False\<rparr> = 1
   \<and> longevity_spec 1 = 1
   \<and> log 2 3 \<noteq> longevity_spec 1
   \<and> calculate_longevity_factor sample_fromisoformat
     (PStr (str ''2024-03-02'')) (PStr (str ''2024-03-01'')) = Inr 0"
proof -
  have ne: "log 2 (3::real) \<noteq> 1"
    using log_2_3_gt_1 by linarith
  have sp: "longevity_spec 1 = 1"
    by (simp add: longevity_spec_def)
  have "calculate_longevity_factor sample_fromisoformat
     (PStr (str ''2024-03-01'')) (PStr (str ''2024-03-02'')) = Inr (log 2 3)"
    by (simp add: longevity_total sample_fromisoformat_def str_def whole_days_def)
  moreover have "whole_days \<lparr>dt_micros = 738946 * 86400000000, dt_aware = False\<rparr>
        \<lparr>dt_micros = 738947 * 86400000000, dt_aware = False\<rparr> = 1"
    by (simp add: whole_days_def)
  moreover have "calculate_longevity_factor sample_fromisoformat
     (PStr (str ''2024-03-02'')) (PStr (str ''2024-03-01'')) = Inr 0"
    by (simp add: longevity_total sample_fromisoformat_def str_def whole_days_def)
  ultimately show ?thesis using ne sp by (simp only: simp_thms)
qed

lemma fl_below_max:
  assumes "\<bar>x\<bar> < 2 ^ 1024 - 2 ^ 970"
  shows "\<bar>fl x\<bar> < 2 ^ 1024"
proof (cases "x = 0")
  case True
  then show ?thesis by (simp add: fl_zero)
next
  case False
  then have pos: "0 < \<bar>x\<bar>" by simp
  have lt: "\<bar>x\<bar> < 2 powr 1024" using assms by simp
  have "log 2 \<bar>x\<bar> < 1024"
    using pos lt by (simp add: log_less_iff)
  then have "\<lfloor>log 2 \<bar>x\<bar>\<rfloor> < 1024"
    by (simp add: floor_less_iff)
  then have "ulp_exp x \<le> 971"
    unfolding ulp_exp_def by simp
  then have "(2::real) powr of_int (ulp_exp x) \<le> 2 powr of_int 971"
    by (intro powr_mono) simp_all
  also have "\<dots> = 2 ^ 971" by simp
  finally have "(2::real) powr of_int (ulp_exp x) / 2 \<le> 2 ^ 970" by simp
  with fl_error [of x] have "\<bar>fl x - x\<bar> \<le> 2 ^ 970" by linarith
  then have "\<bar>fl x\<bar> \<le> \<bar>x\<bar> + 2 ^ 970" by linarith
  with assms show ?thesis by linarith
qed

lemma fl_round_zero: "fl_round 0 = Fin 0"
  by (simp add: fl_round_def fl_zero)

lemma float_of_int_small:
  assumes "\<bar>real_of_int n\<bar> < 2 ^ 1024 - 2 ^ 970"
  shows "float_of_int n = Inr (Fin (fl (real_of_int n)))"
  using fl_round_Fin [OF fl_below_max [OF assms]] by (simp add: float_of_int_def)

text \<open>\<open>1.5 ** 1750\<close> is a double, and \<open>1.5 ** 1751\<close> is beyond the float range.\<close>

lemma power_split_1750: "x ^ 1750 = (x ^ 306) ^ 5 * (x::real) ^ 220"
  by (simp add: power_mult [symmetric] power_add [symmetric])

lemma power_split_1751: "x ^ 1751 = (x ^ 53) ^ 33 * (x::real) ^ 2"
  by (simp only: power_mult [symmetric] power_add [symmetric]) simp

lemma three_306: "(3::real) ^ 306 < 2 ^ 485"
  by simp

lemma three_220: "(3::real) ^ 220 < 414 * 2 ^ 340"
  by simp

lemma three_53: "(2::real) ^ 84 < 3 ^ 53"
  by simp

lemma three_halves_1750: "(3 / 2 :: real) ^ N \<le> 414 * 2 ^ 1015" if "N \<le> 1750" for N :: nat
proof -
  define T :: real where "T = 3 ^ 1750"
  have "T = (3 ^ 306) ^ 5 * 3 ^ 220"
    unfolding T_def by (rule power_split_1750)
  also have "\<dots> < (2 ^ 485) ^ 5 * (414 * 2 ^ 340)"
  proof -
    have h1: "((3::real) ^ 306) ^ 5 < (2 ^ 485) ^ 5"
      by (rule power_strict_mono [OF three_306]) simp_all
    have h3: "(0::real) < (2 ^ 485) ^ 5" by simp
    have h4: "(0::real) \<le> 3 ^ 220" by (rule zero_le_power) simp
    show ?thesis by (rule mult_strict_mono [OF h1 three_220 h3 h4])
  qed
  also have "\<dots> = 414 * 2 ^ 1015 * 2 ^ 1750"
    by (simp only: power_mult [symmetric] power_add [symmetric] mult.assoc mult.commute
        mult.left_commute) simp
  finally have T: "T < 414 * 2 ^ 1015 * 2 ^ 1750" .
  have "(3 / 2 :: real) ^ N \<le> (3 / 2) ^ 1750"
    using that by (intro power_increasing) simp_all
  also have "\<dots> = T / 2 ^ 1750"
    unfolding T_def by (rule power_divide)
  also have "\<dots> \<le> 414 * 2 ^ 1015"
    using T by (simp add: field_simps)
  finally show ?thesis .
qed

lemma below_max_414: "(414::real) * 2 ^ 1015 < 2 ^ 1024 - 2 ^ 970"
  by simp

lemma three_halves_1751:
  "(9 / 8 :: real) * 2 ^ 1024 < (3 / 2) ^ 1751" "(3 / 2 :: real) ^ 1751 < 2 ^ 1025"
proof -
  define T :: real where "T = 3 ^ 1751"
  have "(2 ^ 84) ^ 33 * (3::real) ^ 2 < (3 ^ 53) ^ 33 * 3 ^ 2"
  proof (rule mult_strict_right_mono)
    show "((2::real) ^ 84) ^ 33 < (3 ^ 53) ^ 33"
      by (rule power_strict_mono [OF three_53]) simp_all
    show "(0::real) < 3 ^ 2" by simp
  qed
  also have "\<dots> = T"
    unfolding T_def by (rule power_split_1751 [symmetric])
  finally have "((2::real) ^ 84) ^ 33 * 3 ^ 2 < T" .
  moreover have "((2::real) ^ 84) ^ 33 * 3 ^ 2 = 9 / 8 * 2 ^ 1024 * 2 ^ 1751"
    by simp
  ultimately have T: "9 / 8 * 2 ^ 1024 * 2 ^ 1751 < T" by simp
  have e: "(3 / 2 :: real) ^ 1751 = T / 2 ^ 1751"
    unfolding T_def by (rule power_divide)
  show "(9 / 8 :: real) * 2 ^ 1024 < (3 / 2) ^ 1751"
    unfolding e using T by (simp add: field_simps)
  define U :: real where "U = (3 / 2) ^ 1750"
  have "U \<le> 414 * 2 ^ 1015"
    unfolding U_def by (rule three_halves_1750) simp
  then have "3 / 2 * U < 2 ^ 1025" by simp
  moreover have "(3 / 2 :: real) ^ 1751 = 3 / 2 * U"
    unfolding U_def by (simp only: power_Suc [symmetric]) simp
  ultimately show "(3 / 2 :: real) ^ 1751 < 2 ^ 1025" by simp
qed

lemma pow_1_5_finite:
  assumes "1 \<le> k" and "k \<le> 1750"
  shows "\<exists>y. float_pow_1_5 (Fin (real_of_int k)) = Inr (Fin y) \<and> 0 \<le> y
           \<and> (4 \<le> k \<longrightarrow> 5 < y)"
proof -
  define N where "N = nat k"
  define x :: real where "x = (3 / 2) powr real_of_int k"
  have k: "real_of_int k = real N" using assms(1) unfolding N_def by simp
  have xp: "x = (3 / 2) ^ N"
    unfolding x_def k by (rule powr_realpow) simp
  have N: "N \<le> 1750" using assms(2) unfolding N_def by simp
  have pos: "0 < x" unfolding x_def by simp
  have "x \<le> 414 * 2 ^ 1015"
    unfolding xp using N by (rule three_halves_1750)
  with below_max_414 pos have "\<bar>x\<bar> < 2 ^ 1024 - 2 ^ 970" by linarith
  then have r: "fl_round x = Fin (fl x)"
    by (intro fl_round_Fin fl_below_max)
  have nn: "0 \<le> fl x" using pos by (intro fl_nonneg) simp
  have big: "5 < fl x" if "4 \<le> k"
  proof -
    from that have "4 \<le> N" unfolding N_def by simp
    then have "(3 / 2 :: real) ^ 4 \<le> (3 / 2) ^ N"
      by (intro power_increasing) simp_all
    then have x4: "81 / 16 \<le> x" unfolding xp by (simp add: power4_eq_xxxx)
    have "(2::real) powr (- 1022) = 1 / 2 ^ 1022" by (simp add: powr_neg_numeral)
    also have "\<dots> \<le> 1" by simp
    finally have "(2::real) powr (- 1022) \<le> \<bar>x\<bar>" using x4 by linarith
    from fl_rel [OF this] pos have "\<bar>fl x - x\<bar> \<le> x / 2 ^ 53" by simp
    then have "x - x / 2 ^ 53 \<le> fl x" by linarith
    with x4 show ?thesis by simp
  qed
  have "float_pow_1_5 (Fin (real_of_int k)) = Inr (Fin (fl x))"
    using r unfolding x_def by simp
  with nn big show ?thesis by blast
qed

lemma multiplier_int:
  assumes "n \<le> 1752"
  shows "\<exists>m. calculate_platform_multiplier (PInt n) = Inr (Fin m) \<and> 0 \<le> m \<and> m \<le> 5
           \<and> (n \<le> 0 \<longrightarrow> m = 0) \<and> (n = 1 \<longrightarrow> m = fl (3 / 10)) \<and> (n = 2 \<longrightarrow> m = 1)
           \<and> (6 \<le> n \<longrightarrow> m = 5)"
proof -
  consider (nonpos) "n \<le> 0" | (one) "n = 1" | (two) "n = 2" | (more) "3 \<le> n"
    by linarith
  then show ?thesis
  proof cases
    case nonpos
    then have "calculate_platform_multiplier (PInt n) = Inr (Fin 0)"
      by (simp add: calculate_platform_multiplier_def num_of_def)
    with nonpos show ?thesis by simp
  next
    case one
    have "fl_round (3 / 10) = Fin (fl (3 / 10))"
      by (rule fl_round_Fin) (simp add: fl_3_10)
    with one have "calculate_platform_multiplier (PInt n) = Inr (Fin (fl (3 / 10)))"
      by (simp add: calculate_platform_multiplier_def num_of_def)
    moreover have "0 \<le> fl (3 / 10)" "fl (3 / 10) \<le> 5"
      by (simp_all add: fl_3_10)
    ultimately show ?thesis using one by simp
  next
    case two
    then have "calculate_platform_multiplier (PInt n) = Inr (Fin 1)"
      by (simp add: calculate_platform_multiplier_def num_of_def)
    with two show ?thesis by simp
  next
    case more
    have "\<bar>n - 2\<bar> < 2 ^ 53" using more assms by simp
    from fl_round_of_int [OF this]
    have c: "float_of_int (n - 2) = Inr (Fin (real_of_int (n - 2)))"
      by (simp add: float_of_int_def)
    from pow_1_5_finite [of "n - 2"] more assms obtain y where
      y: "float_pow_1_5 (Fin (real_of_int (n - 2))) = Inr (Fin y)" "0 \<le> y"
      "4 \<le> n - 2 \<longrightarrow> 5 < y"
      by auto
    have "calculate_platform_multiplier (PInt n) = Inr (py_min (Fin y) (Fin 5))"
      using more c y(1) by (simp add: calculate_platform_multiplier_def num_of_def)
    then have "calculate_platform_multiplier (PInt n) = Inr (Fin (if 5 < y then 5 else y))"
      by (simp add: py_min_def flt_def)
    with y(2,3) more show ?thesis by auto
  qed
qed

lemma multiplier_bool:
  "calculate_platform_multiplier (PBool b) = calculate_platform_multiplier (PInt (if b then 1 else 0))"
  by (simp add: calculate_platform_multiplier_def num_of_def)

lemma fl_8_10: "fl (8 / 10) = 7205759403792794 / 2 ^ 53"
  using fl_at [of "- 53" "8 / 10"] by (simp add: powr_neg_numeral rhe_def)

lemma penalty_typed:
  assumes "truthy im \<or> (\<exists>k. kw = PStr k)"
  shows "\<exists>p q. calculate_marketing_penalty mp kw im = Inr (Fin p)
           \<and> fsub (Fin 1) (Fin p) = Fin q"
proof -
  have one: "fl_round 1 = Fin 1" using fl_round_of_int [of 1] by simp
  have half: "fl_round (1 / 2) = Fin (1 / 2)"
    using fl_round_repr [of 1 "- 1"] by (simp add: powr_neg_numeral)
  have p8: "fl_round (8 / 10) = Fin (7205759403792794 / 2 ^ 53)"
    by (rule fl_round_eq [OF fl_8_10]) simp
  have q8: "fsub (Fin 1) (Fin (7205759403792794 / 2 ^ 53)) = Fin (1801439850948198 / 2 ^ 53)"
    using fl_round_repr [of 1801439850948198 "- 53"] by (simp add: powr_neg_numeral)
  show ?thesis
  proof (cases "truthy im")
    case True
    then have "calculate_marketing_penalty mp kw im = Inr (Fin (7205759403792794 / 2 ^ 53))"
      using p8 by (simp add: calculate_marketing_penalty_def)
    with q8 show ?thesis by blast
  next
    case False
    with assms obtain k where k: "kw = PStr k" by blast
    show ?thesis
    proof (cases "mp k")
      case True
      then have "calculate_marketing_penalty mp kw im = Inr (Fin (1 / 2))"
        using False k half by (simp add: calculate_marketing_penalty_def)
      moreover have "fsub (Fin 1) (Fin (1 / 2)) = Fin (1 / 2)"
        using half by simp
      ultimately show ?thesis by blast
    next
      case f: False
      then have "calculate_marketing_penalty mp kw im = Inr (Fin 0)"
        using False k by (simp add: calculate_marketing_penalty_def)
      moreover have "fsub (Fin 1) (Fin 0) = Fin 1"
        using one by simp
      ultimately show ?thesis by blast
    qed
  qed
qed

lemma heat_float:
  assumes "heat_typed td"
  shows "\<exists>b. to_float (dict_get td (str ''raw_heat_score'') (PInt 0)) = Inr b"
proof (cases "dict_get td (str ''raw_heat_score'') (PInt 0)")
  case (PInt n)
  with assms have "\<bar>real_of_int n\<bar> < 2 ^ 1024 - 2 ^ 970"
    by (simp add: heat_typed_def)
  from float_of_int_small [OF this] PInt show ?thesis
    by (simp add: to_float_def num_of_def)
next
  case (PBool b)
  have "float_of_int 0 = Inr (Fin 0)" "float_of_int 1 = Inr (Fin 1)"
    using fl_round_of_int [of 0] fl_round_of_int [of 1] by (simp_all add: float_of_int_def)
  with PBool show ?thesis
    by (simp add: to_float_def num_of_def)
next
  case (PFloat x)
  then show ?thesis by (simp add: to_float_def num_of_def)
next
  case PNone
  with assms show ?thesis by (simp add: heat_typed_def)
next
  case (PStr s)
  with assms show ?thesis by (simp add: heat_typed_def)
qed

lemma to_float_zero: "to_float (PInt 0) = Inr (Fin 0)"
  using fl_round_of_int [of 0] by (simp add: to_float_def num_of_def float_of_int_def)

lemma zero_score_left:
  "fround2 (fmul (fmul (fmul (Fin 0) (Fin m)) (float_of_log l)) (Fin q)) = Fin 0"
  by (simp add: float_of_log_def fl_round_zero rhe_def)

lemma zero_score_right:
  "fround2 (fmul (fmul (fmul (Fin x) (Fin 0)) (float_of_log l)) (Fin q)) = Fin 0"
  by (simp add: float_of_log_def fl_round_zero rhe_def)

lemma dict_get_defaults:
  "dict_get (default_fields ++ td) (str ''keyword'') (PStr []) = dict_get td (str ''keyword'') (PStr [])"
  "dict_get (default_fields ++ td) (str ''raw_heat_score'') (PInt 0) = dict_get td (str ''raw_heat_score'') (PInt 0)"
  "dict_get (default_fields ++ td) (str ''platform_count'') (PInt 1) = dict_get td (str ''platform_count'') (PInt 1)"
  "dict_get (default_fields ++ td) (str ''first_seen'') (PStr []) = dict_get td (str ''first_seen'') (PStr [])"
  "dict_get (default_fields ++ td) (str ''last_seen'') (PStr []) = dict_get td (str ''last_seen'') (PStr [])"
  "dict_get (default_fields ++ td) (str ''is_marketing'') (PBool False) = dict_get td (str ''is_marketing'') (PBool False)"
  by (simp_all add: dict_get_def default_fields_def map_add_def str_def split: option.splits)

lemma real_score_defaults:
  "calculate_real_score fi mp (default_fields ++ td) = calculate_real_score fi mp td"
  unfolding calculate_real_score_def by (simp only: dict_get_defaults)

lemma multiplier_typed:
  assumes "count_typed td"
  shows "\<exists>m. calculate_platform_multiplier (dict_get td (str ''platform_count'') (PInt 1))
               = Inr (Fin m) \<and> 0 \<le> m \<and> m \<le> 5
           \<and> (td (str ''platform_count'') = None \<longrightarrow> m = fl (3 / 10))
           \<and> (\<forall>n. dict_get td (str ''platform_count'') (PInt 1) = PInt n \<and> n \<le> 0 \<longrightarrow> m = 0)
           \<and> (\<forall>n. dict_get td (str ''platform_count'') (PInt 1) = PInt n \<and> 6 \<le> n \<longrightarrow> m = 5)"
proof (cases "dict_get td (str ''platform_count'') (PInt 1)")
  case (PInt n)
  with assms have "n \<le> 1752" by (simp add: count_typed_def)
  from multiplier_int [OF this] obtain m where
    m: "calculate_platform_multiplier (PInt n) = Inr (Fin m)" "0 \<le> m" "m \<le> 5"
    "n \<le> 0 \<longrightarrow> m = 0" "n = 1 \<longrightarrow> m = fl (3 / 10)" "6 \<le> n \<longrightarrow> m = 5"
    by blast
  have "n = 1" if "td (str ''platform_count'') = None"
    using that PInt by (simp add: dict_get_def)
  with m PInt show ?thesis by auto
next
  case (PBool b)
  have "(if b then 1 else 0) \<le> (1752::int)" by simp
  from multiplier_int [OF this] obtain m where
    m: "calculate_platform_multiplier (PInt (if b then 1 else 0)) = Inr (Fin m)"
    "0 \<le> m" "m \<le> 5"
    by (elim exE conjE)
  have "td (str ''platform_count'') \<noteq> None"
    using PBool by (auto simp: dict_get_def split: option.splits)
  with m PBool show ?thesis by (auto simp: multiplier_bool)
next
  case (PFloat x)
  with assms show ?thesis by (simp add: count_typed_def)
next
  case PNone
  with assms show ?thesis by (simp add: count_typed_def)
next
  case (PStr s)
  with assms show ?thesis by (simp add: count_typed_def)
qed

text \<open>
  C10 (amended): on every dict whose present fields have the documented types (keyword a
  string, raw_heat_score a float or an int that a float can hold, platform_count an int
  of at most 1752; any field may be missing, \<open>first_seen\<close>, \<open>last_seen\<close> and
  \<open>is_marketing\<close> may hold anything) \<open>calculate_real_score\<close> returns a float and does
  not raise: no factor raises, the multiplier is a double between 0 and 5, and the score
  is the product of the four factors, taken from left to right in double precision and
  rounded to two decimals. The result is that of the dict completed with the defaults
  \<open>keyword = ""\<close>, \<open>raw_heat_score = 0\<close>, \<open>platform_count = 1\<close>, \<open>first_seen = ""\<close>,
  \<open>last_seen = ""\<close>, \<open>is_marketing = False\<close>. An item without raw_heat_score scores
  0.0, an item without platform_count is scored with the multiplier 0.3, a
  platform_count of 0 or less gives the multiplier 0.0 and, for a finite raw_heat_score,
  the score 0.0, and a platform_count from 6 to 1752 gives the multiplier 5.0.
\<close>

theorem C10_real_score_total:
  assumes "documented_types td"
  shows "\<exists>score b m l p.
           calculate_real_score fi mp td = Inr score
         \<and> calculate_real_score fi mp (default_fields ++ td) = Inr score
         \<and> to_float (dict_get td (str ''raw_heat_score'') (PInt 0)) = Inr b
         \<and> calculate_platform_multiplier (dict_get td (str ''platform_count'') (PInt 1))
              = Inr (Fin m)
         \<and> calculate_longevity_factor fi (dict_get td (str ''first_seen'') (PStr []))
              (dict_get td (str ''last_seen'') (PStr [])) = Inr l
         \<and> calculate_marketing_penalty mp (dict_get td (str ''keyword'') (PStr []))
              (dict_get td (str ''is_marketing'') (PBool False)) = Inr (Fin p)
         \<and> score = fround2 (fmul (fmul (fmul b (Fin m)) (float_of_log l))
                              (fsub (Fin 1) (Fin p)))
         \<and> 0 \<le> m \<and> m \<le> 5
         \<and> (td (str ''raw_heat_score'') = None \<longrightarrow> score = Fin 0)
         \<and> (td (str ''platform_count'') = None \<longrightarrow> m = fl (3 / 10))
         \<and> (\<forall>n. dict_get td (str ''platform_count'') (PInt 1) = PInt n \<and> n \<le> 0
                \<longrightarrow> m = 0 \<and> (\<forall>x. b = Fin x \<longrightarrow> score = Fin 0))
         \<and> (\<forall>n. dict_get td (str ''platform_count'') (PInt 1) = PInt n \<and> 6 \<le> n
                \<longrightarrow> m = 5)"
proof -
  let ?pc = "dict_get td (str ''platform_count'') (PInt 1)"
  let ?bh = "dict_get td (str ''raw_heat_score'') (PInt 0)"
  let ?kw = "dict_get td (str ''keyword'') (PStr [])"
  let ?im = "dict_get td (str ''is_marketing'') (PBool False)"
  from assms have kt: "keyword_typed td" and ht: "heat_typed td" and ct: "count_typed td"
    unfolding documented_types_def by simp_all
  from heat_float [OF ht] obtain b where b: "to_float ?bh = Inr b" ..
  from multiplier_typed [OF ct] obtain m where
    m: "calculate_platform_multiplier ?pc = Inr (Fin m)" "0 \<le> m" "m \<le> 5"
    and mnone: "td (str ''platform_count'') = None \<longrightarrow> m = fl (3 / 10)"
    and mzero: "\<forall>n. ?pc = PInt n \<and> n \<le> 0 \<longrightarrow> m = 0"
    and mfive: "\<forall>n. ?pc = PInt n \<and> 6 \<le> n \<longrightarrow> m = 5"
    by (elim exE conjE)
  obtain l where l: "calculate_longevity_factor fi (dict_get td (str ''first_seen'') (PStr []))
              (dict_get td (str ''last_seen'') (PStr [])) = Inr l"
    by (simp add: longevity_total)
  have "truthy ?im \<or> (\<exists>k. ?kw = PStr k)"
    using kt unfolding keyword_typed_def by (auto split: pyval.splits)
  from penalty_typed [OF this, of mp] obtain p q where
    p: "calculate_marketing_penalty mp ?kw ?im = Inr (Fin p)"
    and q: "fsub (Fin 1) (Fin p) = Fin q"
    by blast
  let ?score = "fround2 (fmul (fmul (fmul b (Fin m)) (float_of_log l)) (fsub (Fin 1) (Fin p)))"
  have s: "calculate_real_score fi mp td = Inr ?score"
    unfolding calculate_real_score_def Let_def using m(1) l p b
    by (simp del: fround2.simps fmul.simps fsub.simps)
  have sd: "calculate_real_score fi mp (default_fields ++ td) = Inr ?score"
    using s by (simp only: real_score_defaults)
  have raw: "td (str ''raw_heat_score'') = None \<longrightarrow> ?score = Fin 0"
  proof
    assume "td (str ''raw_heat_score'') = None"
    then have "?bh = PInt 0" by (simp add: dict_get_def)
    with b to_float_zero have "b = Fin 0" by simp
    then show "?score = Fin 0" unfolding q by (simp only: zero_score_left)
  qed
  have nonpos: "\<forall>n. ?pc = PInt n \<and> n \<le> 0 \<longrightarrow> m = 0 \<and> (\<forall>x. b = Fin x \<longrightarrow> ?score = Fin 0)"
  proof (intro allI impI conjI)
    fix n x
    assume a: "?pc = PInt n \<and> n \<le> 0"
    with mzero show m0: "m = 0" by blast
    assume "b = Fin x"
    with m0 show "?score = Fin 0" unfolding q by (simp only: zero_score_right)
  qed
  show ?thesis
  proof (intro exI conjI)
    show "calculate_real_score fi mp td = Inr ?score" by (rule s)
    show "calculate_real_score fi mp (default_fields ++ td) = Inr ?score" by (rule sd)
    show "to_float ?bh = Inr b" by (rule b)
    show "calculate_platform_multiplier ?pc = Inr (Fin m)" by (rule m(1))
    show "calculate_longevity_factor fi (dict_get td (str ''first_seen'') (PStr []))
              (dict_get td (str ''last_seen'') (PStr [])) = Inr l" by (rule l)
    show "calculate_marketing_penalty mp ?kw ?im = Inr (Fin p)" by (rule p)
    show "?score = fround2 (fmul (fmul (fmul b (Fin m)) (float_of_log l))
                              (fsub (Fin 1) (Fin p)))" by (rule refl)
    show "0 \<le> m" by (rule m(2))
    show "m \<le> 5" by (rule m(3))
    show "td (str ''raw_heat_score'') = None \<longrightarrow> ?score = Fin 0" by (rule raw)
    show "td (str ''platform_count'') = None \<longrightarrow> m = fl (3 / 10)" by (rule mnone)
    show "\<forall>n. ?pc = PInt n \<and> n \<le> 0 \<longrightarrow> m = 0 \<and> (\<forall>x. b = Fin x \<longrightarrow> ?score = Fin 0)"
      by (rule nonpos)
    show "\<forall>n. ?pc = PInt n \<and> 6 \<le> n \<longrightarrow> m = 5" by (rule mfive)
  qed
qed

lemma sample_empty_string: "sample_fromisoformat [] = None"
  by (simp add: sample_fromisoformat_def str_def)

lemma real_score_quarter:
  "calculate_real_score sample_fromisoformat (\<lambda>k. False)
     [str ''raw_heat_score'' \<mapsto> PFloat (Fin (1 / 4))] = Inr (Fin (fl (7 / 100)))"
proof -
  let ?c = "5404319552844595 :: real"
  have one: "fl_round 1 = Fin 1" using fl_round_of_int [of 1] by simp
  have m: "calculate_platform_multiplier (PInt 1) = Inr (Fin (?c / 2 ^ 54))"
    using fl_round_eq [OF fl_3_10] by (simp add: calculate_platform_multiplier_def num_of_def)
  have l: "calculate_longevity_factor sample_fromisoformat (PStr []) (PStr []) = Inr 1"
    by (simp add: longevity_total sample_empty_string)
  have fl1: "float_of_log 1 = Fin 1"
    using fl_of_int [of 1] by (simp add: float_of_log_def)
  have p: "calculate_marketing_penalty (\<lambda>k. False) (PStr []) (PBool False) = Inr (Fin 0)"
    by (simp add: calculate_marketing_penalty_def truthy_def)
  have q: "fsub (Fin 1) (Fin 0) = Fin 1" using one by simp
  have b: "to_float (PFloat (Fin (1 / 4))) = Inr (Fin (1 / 4))"
    by (simp add: to_float_def num_of_def)
  have x: "fl_round (?c / 2 ^ 56) = Fin (?c / 2 ^ 56)"
    using fl_round_repr [of 5404319552844595 "- 56"] by (simp add: powr_neg_numeral)
  have e1: "1 / 4 * (?c / 2 ^ 54) = ?c / 2 ^ 56" by simp
  have e2: "?c / 2 ^ 56 * 1 = ?c / 2 ^ 56" by simp
  have prod: "fmul (fmul (fmul (Fin (1 / 4)) (Fin (?c / 2 ^ 54))) (Fin 1)) (Fin 1)
      = Fin (?c / 2 ^ 56)"
    by (simp only: fmul.simps e1 e2 x)
  have k: "rhe (?c / 2 ^ 56 * 100) = 7" by (simp add: rhe_def)
  have "fl (7 / 100) = 5044031582654956 / 2 ^ 56"
    using fl_at [of "- 56" "7 / 100"] by (simp add: powr_neg_numeral rhe_def)
  then have v: "fl_round (7 / 100) = Fin (fl (7 / 100))"
    by (intro fl_round_eq) simp_all
  have r: "fround2 (Fin (?c / 2 ^ 56)) = Fin (fl (7 / 100))"
    using k v by simp
  have d: "dict_get [str ''raw_heat_score'' \<mapsto> PFloat (Fin (1 / 4))] (str ''raw_heat_score'') (PInt 0)
      = PFloat (Fin (1 / 4))"
    "dict_get [str ''raw_heat_score'' \<mapsto> PFloat (Fin (1 / 4))] (str ''platform_count'') (PInt 1)
      = PInt 1"
    "dict_get [str ''raw_heat_score'' \<mapsto> PFloat (Fin (1 / 4))] (str ''keyword'') (PStr [])
      = PStr []"
    "dict_get [str ''raw_heat_score'' \<mapsto> PFloat (Fin (1 / 4))] (str ''first_seen'') (PStr [])
      = PStr []"
    "dict_get [str ''raw_heat_score'' \<mapsto> PFloat (Fin (1 / 4))] (str ''last_seen'') (PStr [])
      = PStr []"
    "dict_get [str ''raw_heat_score'' \<mapsto> PFloat (Fin (1 / 4))] (str ''is_marketing'') (PBool False)
      = PBool False"
    by (simp_all add: dict_get_def str_def)
  have "calculate_real_score sample_fromisoformat (\<lambda>k. False)
     [str ''raw_heat_score'' \<mapsto> PFloat (Fin (1 / 4))]
     = Inr (fround2 (fmul (fmul (fmul (Fin (1 / 4)) (Fin (?c / 2 ^ 54))) (Fin 1)) (Fin 1)))"
    unfolding calculate_real_score_def Let_def d
    by (simp only: m l p b q fl1 sum.case)
  then show ?thesis by (simp only: prod r)
qed

theorem C10_real_score_total_witness:
  "documented_types [str ''keyword'' \<mapsto> PStr (str ''ai''), str ''platform_count'' \<mapsto> PInt (- 3)]
   \<and> calculate_real_score sample_fromisoformat (\<lambda>k. False)
        [str ''keyword'' \<mapsto> PStr (str ''ai''), str ''platform_count'' \<mapsto> PInt (- 3)]
        = Inr (Fin 0)
   \<and> calculate_platform_multiplier (PInt (- 3)) = Inr (Fin 0)
   \<and> calculate_real_score sample_fromisoformat (\<lambda>k. False)
        [str ''raw_heat_score'' \<mapsto> PFloat (Fin (1 / 4))] = Inr (Fin (fl (7 / 100)))"
proof -
  let ?td = "[str ''keyword'' \<mapsto> PStr (str ''ai''), str ''platform_count'' \<mapsto> PInt (- 3)]"
  have dt: "documented_types ?td"
    by (simp add: documented_types_def keyword_typed_def heat_typed_def count_typed_def
        dict_get_def str_def)
  have pc: "dict_get ?td (str ''platform_count'') (PInt 1) = PInt (- 3)"
    by (simp add: dict_get_def str_def)
  have raw: "?td (str ''raw_heat_score'') = None"
    by (simp add: str_def)
  from C10_real_score_total [OF dt, of sample_fromisoformat "\<lambda>k. False"] obtain score b m where
    "calculate_real_score sample_fromisoformat (\<lambda>k. False) ?td = Inr score"
    "calculate_platform_multiplier (dict_get ?td (str ''platform_count'') (PInt 1)) = Inr (Fin m)"
    "?td (str ''raw_heat_score'') = None \<longrightarrow> score = Fin 0"
    "\<forall>n. dict_get ?td (str ''platform_count'') (PInt 1) = PInt n \<and> n \<le> 0
       \<longrightarrow> m = 0 \<and> (\<forall>x. b = Fin x \<longrightarrow> score = Fin 0)"
    by (elim exE conjE)
  then have "calculate_real_score sample_fromisoformat (\<lambda>k. False) ?td = Inr (Fin 0)"
    and "calculate_platform_multiplier (PInt (- 3)) = Inr (Fin 0)"
    using pc raw by simp_all
  with dt real_score_quarter show ?thesis by (simp only: simp_thms)
qed

text \<open>
  C10 as stated fails: a dict is not restricted to the documented types, and a keyword
  that is no string makes the pattern match raise \<open>TypeError\<close>. Within the documented
  types, a platform_count of 0 does not give the score 0.0 when raw_heat_score is an
  infinity: the product \<open>inf * 0.0\<close> is a NaN.
\<close>

theorem C10_counterexample:
  "calculate_real_score sample_fromisoformat (\<lambda>k. False) [str ''keyword'' \<mapsto> PInt 5]
     = Inl TypeError
   \<and> documented_types [str ''raw_heat_score'' \<mapsto> PFloat PInf, str ''platform_count'' \<mapsto> PInt 0]
   \<and> calculate_real_score sample_fromisoformat (\<lambda>k. False)
       [str ''raw_heat_score'' \<mapsto> PFloat PInf, str ''platform_count'' \<mapsto> PInt 0] = Inr NaN"
proof -
  have one: "fl_round 1 = Fin 1" using fl_round_of_int [of 1] by simp
  have m1: "calculate_platform_multiplier (PInt 1) = Inr (fl_round (3 / 10))"
    and m0: "calculate_platform_multiplier (PInt 0) = Inr (Fin 0)"
    by (simp_all add: calculate_platform_multiplier_def num_of_def)
  have l: "calculate_longevity_factor sample_fromisoformat (PStr []) (PStr []) = Inr 1"
    by (simp add: longevity_total sample_empty_string)
  have a: "calculate_real_score sample_fromisoformat (\<lambda>k. False) [str ''keyword'' \<mapsto> PInt 5]
     = Inl TypeError"
    by (simp add: calculate_real_score_def dict_get_def str_def m1 l
        calculate_marketing_penalty_def truthy_def)
  have b: "documented_types
      [str ''raw_heat_score'' \<mapsto> PFloat PInf, str ''platform_count'' \<mapsto> PInt 0]"
    by (simp add: documented_types_def keyword_typed_def heat_typed_def count_typed_def
        dict_get_def str_def)
  have c: "calculate_real_score sample_fromisoformat (\<lambda>k. False)
       [str ''raw_heat_score'' \<mapsto> PFloat PInf, str ''platform_count'' \<mapsto> PInt 0] = Inr NaN"
    by (simp add: calculate_real_score_def dict_get_def str_def m0 l float_of_log_def
        calculate_marketing_penalty_def truthy_def to_float_def num_of_def)
  show ?thesis using a b c by (simp only: simp_thms)
qed

text \<open>
  The bound of the amended C10 is sharp: for a \<open>platform_count\<close> of 1753 the power is
  computed before the cap of 5.0 is applied, and raises.
\<close>

lemma multiplier_overflow:
  "calculate_platform_multiplier (PInt 1753) = Inl OverflowError"
proof -
  define x :: real where "x = (3 / 2) powr real_of_int 1751"
  have "x = (3 / 2) powr real (1751::nat)" unfolding x_def by simp
  also have "\<dots> = (3 / 2) ^ 1751" by (rule powr_realpow) simp
  finally have xp: "x = (3 / 2) ^ 1751" .
  have lo: "9 / 8 * 2 ^ 1024 < x"
    unfolding xp by (rule three_halves_1751(1))
  have hi: "x < 2 ^ 1025"
    unfolding xp by (rule three_halves_1751(2))
  have pos: "0 < x" using lo by simp
  have "x < 2 powr 1025" using hi by simp
  then have "log 2 \<bar>x\<bar> < 1025"
    using pos by (simp add: log_less_iff)
  then have "\<lfloor>log 2 \<bar>x\<bar>\<rfloor> < 1025"
    by (simp add: floor_less_iff)
  then have "ulp_exp x \<le> 972"
    unfolding ulp_exp_def by simp
  then have "(2::real) powr of_int (ulp_exp x) \<le> 2 powr of_int 972"
    by (intro powr_mono) simp_all
  also have "\<dots> = 2 ^ 972" by simp
  finally have "(2::real) powr of_int (ulp_exp x) / 2 \<le> 2 ^ 971" by simp
  with fl_error [of x] have "\<bar>fl x - x\<bar> \<le> 2 ^ 971" by linarith
  then have "x - 2 ^ 971 \<le> fl x" by linarith
  with lo have "2 ^ 1024 \<le> fl x" by simp
  then have inf: "fl_round x = PInf" by (simp add: fl_round_def)
  have c: "float_of_int 1751 = Inr (Fin 1751)"
    using fl_round_of_int [of 1751] by (simp add: float_of_int_def)
  have "float_pow_1_5 (Fin 1751) = Inl OverflowError"
    using inf unfolding x_def by simp
  then show ?thesis
    using c by (simp add: calculate_platform_multiplier_def num_of_def)
qed


end
